theory Spec2Isabelle
  imports Main
begin

section \<open>Python values and library functions used by \<open>dask/dataframe/multi.py\<close>\<close>

text \<open>
  Exceptions are values.  \<open>IndexError\<close> is raised by \<open>xs[i]\<close> out of range,
  \<open>ValueError\<close> by \<open>min\<close> and \<open>max\<close> of an empty sequence and by unpacking a row of
  the wrong width, \<open>KeyError\<close> by a dictionary lookup, \<open>AssertionError\<close> by \<open>assert\<close>.
  \<open>PandasError\<close> stands for whatever the in-memory table library raises during schema
  inference.
\<close>

datatype error = IndexError | ValueError | KeyError | AssertionError | PandasError

text \<open>The slice \<open>xs[lo:hi]\<close> for non-negative \<open>lo\<close>, \<open>hi\<close>; it never raises.\<close>

definition slice :: "'a list \<Rightarrow> nat \<Rightarrow> nat \<Rightarrow> 'a list" where
  "slice xs lo hi = drop lo (take hi xs)"

text \<open>
  \<open>bisect.bisect_left(a, x)\<close> and \<open>bisect.bisect_right(a, x)\<close> of the standard library:
  the binary search loops, started at \<open>lo = 0\<close>, \<open>hi = len(a)\<close>.
\<close>

function bisect_left_loop :: "'a::linorder list \<Rightarrow> 'a \<Rightarrow> nat \<Rightarrow> nat \<Rightarrow> nat" where
  "bisect_left_loop a x lo hi =
     (if lo < hi then
        (if a ! ((lo + hi) div 2) < x then bisect_left_loop a x ((lo + hi) div 2 + 1) hi
         else bisect_left_loop a x lo ((lo + hi) div 2))
      else lo)"
  by pat_completeness auto
termination
  by (relation "measure (\<lambda>(a, x, lo, hi). hi - lo)") auto

function bisect_right_loop :: "'a::linorder list \<Rightarrow> 'a \<Rightarrow> nat \<Rightarrow> nat \<Rightarrow> nat" where
  "bisect_right_loop a x lo hi =
     (if lo < hi then
        (if x < a ! ((lo + hi) div 2) then bisect_right_loop a x lo ((lo + hi) div 2)
         else bisect_right_loop a x ((lo + hi) div 2 + 1) hi)
      else lo)"
  by pat_completeness auto
termination
  by (relation "measure (\<lambda>(a, x, lo, hi). hi - lo)") auto

definition bisect_left :: "'a::linorder list \<Rightarrow> 'a \<Rightarrow> nat" where
  "bisect_left a x = bisect_left_loop a x 0 (length a)"

definition bisect_right :: "'a::linorder list \<Rightarrow> 'a \<Rightarrow> nat" where
  "bisect_right a x = bisect_right_loop a x 0 (length a)"

text \<open>
  \<open>toolz.merge_sorted(*seqs)\<close>: the merge of the sequences.  Two sequences are merged
  by taking the smaller head at each step and the head of the first sequence on a tie;
  more sequences are merged pairwise.  On sorted sequences, which is what the properties
  below are about, every order of pairing gives the same list.  \<open>toolz.unique(seq)\<close>:
  the elements of \<open>seq\<close> in order, each kept at its first occurrence only (\<open>seen\<close> holds
  the elements met so far).
\<close>

fun merge2 :: "'a::linorder list \<Rightarrow> 'a list \<Rightarrow> 'a list" where
  "merge2 [] bs = bs"
| "merge2 (a # as) [] = a # as"
| "merge2 (a # as) (b # bs) =
     (if b < a then b # merge2 (a # as) bs else a # merge2 as (b # bs))"

definition merge_sorted :: "'a::linorder list list \<Rightarrow> 'a list" where
  "merge_sorted seqs = foldr merge2 seqs []"

fun unique_seen :: "'a list \<Rightarrow> 'a list \<Rightarrow> 'a list" where
  "unique_seen seen [] = []"
| "unique_seen seen (x # xs) =
     (if x \<in> set seen then unique_seen seen xs else x # unique_seen (x # seen) xs)"

definition unique :: "'a list \<Rightarrow> 'a list" where
  "unique xs = unique_seen [] xs"

text \<open>\<open>min\<close> and \<open>max\<close> of a list: \<open>ValueError\<close> on the empty list.\<close>

fun py_min :: "nat list \<Rightarrow> error + nat" where
  "py_min [] = Inl ValueError"
| "py_min (x # xs) = Inr (fold min xs x)"

fun py_max :: "nat list \<Rightarrow> error + nat" where
  "py_max [] = Inl ValueError"
| "py_max (x # xs) = Inr (fold max xs x)"

section \<open>Datasets and task graphs\<close>

text \<open>
  A partition reference is a key \<open>(name, i)\<close> of the task graph.  A task descriptor is a
  tuple headed by the operation; its operands are keys or literal empty tables, of which
  only the column names matter here.  A graph maps keys to descriptors; the descriptor
  \<open>None\<close> of Python is \<open>None\<close> here, so a key bound to it is mapped to \<open>Some None\<close>.
\<close>

type_synonym key = "string \<times> nat"

datatype operand = Part key | Empty "string list"

datatype task =
    Join operand operand string string string
  | Merge key key string string string "string \<times> string"
  | Concat "operand list" string

type_synonym graph = "key \<Rightarrow> task option option"

text \<open>\<open>dict(pairs)\<close>: later pairs override earlier ones.  \<open>toolz.merge(*dicts)\<close>
  likewise.\<close>

definition dict :: "(key \<times> task option) list \<Rightarrow> graph" where
  "dict kvs = fold (\<lambda>kv m. m(fst kv \<mapsto> snd kv)) kvs Map.empty"

definition merge :: "graph list \<Rightarrow> graph" where
  "merge ds = fold (\<lambda>d rv. rv ++ d) ds Map.empty"

text \<open>
  \<open>DataFrame(dsk, name, columns, divisions)\<close> of \<open>dask.dataframe.core\<close>: the fields
  this module reads.  \<open>df_name\<close> is the attribute \<open>_name\<close>.
\<close>

record 'd dataframe =
  dask :: graph
  df_name :: string
  columns :: "string list"
  divisions :: "'d list"

definition DataFrame :: "graph \<Rightarrow> string \<Rightarrow> string list \<Rightarrow> 'd list \<Rightarrow> 'd dataframe" where
  "DataFrame dsk nm cols divs = \<lparr>dask = dsk, df_name = nm, columns = cols, divisions = divs\<rparr>"

text \<open>
  Modelled from the spec: the property \<open>npartitions\<close> of \<open>dask.dataframe.core\<close> is
  not part of this module.  "Every dataset's BoundarySet length equals its partition count
  + 1."
\<close>

definition npartitions :: "'d dataframe \<Rightarrow> int" where
  "npartitions df = int (length (divisions df)) - 1"

text \<open>
  Modelled from the spec: \<open>repartition\<close> of \<open>dask.dataframe.core\<close> is not part of
  this module.  "Repartition-by-boundaries(dataset, boundary_sequence): returns a dataset
  whose BoundarySet equals the given sequence, preserving all rows and their relative
  order."  Rows are not part of the metadata modelled here.
\<close>

definition repartition :: "'d dataframe \<Rightarrow> 'd list \<Rightarrow> 'd dataframe" where
  "repartition df divs = df\<lparr>divisions := divs\<rparr>"

section \<open>\<open>bound\<close>\<close>

definition bound :: "'a::linorder list \<Rightarrow> 'a \<Rightarrow> 'a \<Rightarrow> 'a list" where
  "bound seq left right = slice seq (bisect_left seq left) (bisect_right seq right)"

section \<open>\<open>align\<close>\<close>

text \<open>
  One step of the inner loop of \<open>align\<close>, for input \<open>i\<close> with cursor \<open>j = inds[i]\<close> at
  the common boundary \<open>d\<close>: the entry appended to the row and the new cursor.
\<close>

definition align_slot :: "'a dataframe \<Rightarrow> nat \<Rightarrow> 'a \<Rightarrow> key option \<times> nat" where
  "align_slot df2 j d =
     (if int j < int (length (divisions df2)) - 1 \<and> divisions df2 ! j = d
      then (Some (df_name df2, j), j + 1)
      else (None, j))"

text \<open>The inner loop over \<open>range(len(dfs))\<close>: the row \<open>L\<close> and the updated \<open>inds\<close>.\<close>

definition align_row :: "'a dataframe list \<Rightarrow> nat list \<Rightarrow> 'a \<Rightarrow> key option list \<times> nat list" where
  "align_row dfs2 inds d =
     (map (\<lambda>(df2, j). fst (align_slot df2 j d)) (zip dfs2 inds),
      map (\<lambda>(df2, j). snd (align_slot df2 j d)) (zip dfs2 inds))"

text \<open>The outer loop over \<open>divisions[:-1]\<close>.\<close>

fun align_loop :: "'a dataframe list \<Rightarrow> nat list \<Rightarrow> 'a list \<Rightarrow> key option list list" where
  "align_loop dfs2 inds [] = []"
| "align_loop dfs2 inds (d # ds) =
     fst (align_row dfs2 inds d) # align_loop dfs2 (snd (align_row dfs2 inds d)) ds"

text \<open>
  \<open>align(*dfs)\<close>.  \<open>df.divisions[0]\<close> raises \<open>IndexError\<close> for a dataset without
  boundaries.
\<close>

definition align ::
  "'a::linorder dataframe list \<Rightarrow> error + ('a dataframe list \<times> 'a list \<times> key option list list)" where
  "align dfs =
     (let divs = unique (merge_sorted (map divisions dfs)) in
      if [] \<in> set (map divisions dfs) then Inl IndexError
      else
        (let divisionss = map (\<lambda>df. bound divs (hd (divisions df)) (last (divisions df))) dfs;
             dfs2 = map (\<lambda>(df, ds). repartition df ds) (zip dfs divisionss);
             result = align_loop dfs2 (map (\<lambda>df. 0) dfs) (butlast divs)
         in Inr (dfs2, divs, result)))"

section \<open>\<open>require\<close>\<close>

text \<open>
  One iteration of the loop of \<open>require\<close> for the required slot \<open>i\<close>.  \<open>p[i]\<close> raises
  \<open>IndexError\<close> on a row without slot \<open>i\<close>; \<open>min(present)\<close> raises \<open>ValueError\<close> when
  no row has the slot present.
\<close>

definition require_step ::
  "nat \<Rightarrow> 'a list \<times> key option list list \<Rightarrow> error + ('a list \<times> key option list list)" where
  "require_step i dp =
     (if list_ex (\<lambda>p. length p \<le> i) (snd dp) then Inl IndexError
      else
        (let present = filter (\<lambda>j. snd dp ! j ! i \<noteq> None) [0..<length (snd dp)] in
         case py_min present of
           Inl e \<Rightarrow> Inl e
         | Inr lo \<Rightarrow>
            (case py_max present of
               Inl e \<Rightarrow> Inl e
             | Inr hi \<Rightarrow> Inr (slice (fst dp) lo (hi + 2), slice (snd dp) lo (hi + 1)))))"

fun require_loop ::
  "nat list \<Rightarrow> 'a list \<times> key option list list \<Rightarrow> error + ('a list \<times> key option list list)" where
  "require_loop [] dp = Inr dp"
| "require_loop (i # rest) dp =
     (case require_step i dp of Inl e \<Rightarrow> Inl e | Inr dp' \<Rightarrow> require_loop rest dp')"

text \<open>\<open>require(divisions, parts, required=None)\<close>; \<open>not required\<close> holds for \<open>None\<close>
  and for the empty list.\<close>

definition require ::
  "'a list \<Rightarrow> key option list list \<Rightarrow> nat list option \<Rightarrow> error + ('a list \<times> key option list list)" where
  "require divs parts req =
     (case req of
        None \<Rightarrow> Inr (divs, parts)
      | Some [] \<Rightarrow> Inr (divs, parts)
      | Some (i # rest) \<Rightarrow> require_loop (i # rest) (divs, parts))"

section \<open>\<open>join_indexed_dataframes\<close>\<close>

text \<open>The module-level dictionary \<open>required\<close>; a lookup of another key raises
  \<open>KeyError\<close>.\<close>

definition required :: "string \<Rightarrow> nat list option" where
  "required = [''left'' \<mapsto> [0], ''right'' \<mapsto> [1], ''inner'' \<mapsto> [0, 1], ''outer'' \<mapsto> []]"

text \<open>
  The builders return, next to their outcome, the stages of this module they have
  entered, in order, so that what ran before an exception is part of the value.
\<close>

datatype stage = AlignCalled | RequireCalled

text \<open>
  The conditional expression of the dictionary comprehension for a row \<open>(a, b)\<close>;
  \<open>left_empty\<close> and \<open>right_empty\<close> are the column names of the empty tables.
\<close>

definition join_task ::
  "string \<Rightarrow> string \<Rightarrow> string \<Rightarrow> string list \<Rightarrow> string list \<Rightarrow>
   key option \<Rightarrow> key option \<Rightarrow> task option" where
  "join_task how lsuffix rsuffix left_empty right_empty a b =
     (if a \<noteq> None \<and> b \<noteq> None
      then Some (Join (Part (the a)) (Part (the b)) how lsuffix rsuffix)
      else if a \<noteq> None \<and> how \<in> {''left'', ''outer''}
      then Some (Join (Part (the a)) (Empty right_empty) how lsuffix rsuffix)
      else if b \<noteq> None \<and> how \<in> {''right'', ''outer''}
      then Some (Join (Empty left_empty) (Part (the b)) how lsuffix rsuffix)
      else None)"

text \<open>The comprehension over \<open>enumerate(parts)\<close>; unpacking a row that is not a pair
  raises \<open>ValueError\<close>.\<close>

definition join_dsk ::
  "string \<Rightarrow> string \<Rightarrow> string \<Rightarrow> string \<Rightarrow> string list \<Rightarrow> string list \<Rightarrow>
   key option list list \<Rightarrow> error + (key \<times> task option) list" where
  "join_dsk nm how lsuffix rsuffix left_empty right_empty parts =
     (if list_all (\<lambda>p. length p = 2) parts
      then Inr (map (\<lambda>(i, p). ((nm, i),
                  join_task how lsuffix rsuffix left_empty right_empty (p ! 0) (p ! 1)))
                (enumerate 0 parts))
      else Inl ValueError)"

text \<open>
  \<open>join_indexed_dataframes(lhs, rhs, how, lsuffix, rsuffix)\<close>.  The column inference of
  the table library on the two empty tables, \<open>left_empty.join(right_empty, None, how,
  lsuffix, rsuffix).columns\<close>, is the parameter \<open>pd_join_columns\<close>; \<open>tok\<close> is the value
  of \<open>next(tokens)\<close>.
\<close>

definition join_indexed_dataframes ::
  "(string list \<Rightarrow> string list \<Rightarrow> string \<Rightarrow> string \<Rightarrow> string \<Rightarrow> error + string list) \<Rightarrow>
   string \<Rightarrow> 'a::linorder dataframe \<Rightarrow> 'a dataframe \<Rightarrow> string \<Rightarrow> string \<Rightarrow> string \<Rightarrow>
   stage list \<times> (error + 'a dataframe)" where
  "join_indexed_dataframes pd_join_columns tok lhs rhs how lsuffix rsuffix =
     (case align [lhs, rhs] of
        Inl e \<Rightarrow> ([AlignCalled], Inl e)
      | Inr (dfs2, divs, parts) \<Rightarrow>
         (case required how of
            None \<Rightarrow> ([AlignCalled], Inl KeyError)
          | Some req \<Rightarrow>
             (case require divs parts (Some req) of
                Inl e \<Rightarrow> ([AlignCalled, RequireCalled], Inl e)
              | Inr (divs2, parts2) \<Rightarrow>
                 (let left_empty = columns (dfs2 ! 0);
                      right_empty = columns (dfs2 ! 1);
                      nm = ''join-indexed'' @ tok
                  in case join_dsk nm how lsuffix rsuffix left_empty right_empty parts2 of
                       Inl e \<Rightarrow> ([AlignCalled, RequireCalled], Inl e)
                     | Inr dsk \<Rightarrow>
                        (case pd_join_columns left_empty right_empty how lsuffix rsuffix of
                           Inl e \<Rightarrow> ([AlignCalled, RequireCalled], Inl e)
                         | Inr cols \<Rightarrow>
                            ([AlignCalled, RequireCalled],
                             Inr (DataFrame (merge [dask (dfs2 ! 0), dask (dfs2 ! 1), dict dsk])
                                    nm cols divs2)))))))"

section \<open>\<open>hash_join\<close>\<close>

text \<open>
  \<open>hash_join(lhs, on_left, rhs, on_right, how, npartitions, suffixes)\<close>.  \<open>shuffle\<close> of
  \<open>dask.dataframe.shuffle\<close> and the column inference \<open>pd.merge(left_empty,
  right_empty, how, None, on_left, on_right).columns\<close> are parameters.
\<close>

definition hash_join ::
  "('d dataframe \<Rightarrow> string \<Rightarrow> int \<Rightarrow> 's dataframe) \<Rightarrow>
   (string list \<Rightarrow> string list \<Rightarrow> string \<Rightarrow> string \<Rightarrow> string \<Rightarrow> error + string list) \<Rightarrow>
   string \<Rightarrow> 'd dataframe \<Rightarrow> string \<Rightarrow> 'd dataframe \<Rightarrow> string \<Rightarrow> string \<Rightarrow> int option \<Rightarrow>
   string \<times> string \<Rightarrow> error + 'e option dataframe" where
  "hash_join shuffle pd_merge_columns tok lhs on_left rhs on_right how npartitions_arg suffixes =
     (let n = (case npartitions_arg of
                 None \<Rightarrow> max (npartitions lhs) (npartitions rhs)
               | Some k \<Rightarrow> k);
          lhs2 = shuffle lhs on_left n;
          rhs2 = shuffle rhs on_right n;
          nm = ''hash-join'' @ tok;
          dsk = map (\<lambda>i. ((nm, i),
                  Some (Merge (df_name lhs2, i) (df_name rhs2, i) how on_left on_right suffixes)))
                [0..<nat n]
      in case pd_merge_columns (columns lhs) (columns rhs) how on_left on_right of
           Inl e \<Rightarrow> Inl e
         | Inr cols \<Rightarrow>
            Inr (DataFrame (merge [dask lhs2, dask rhs2, dict dsk]) nm cols
                   (replicate (nat (n + 1)) None)))"

section \<open>\<open>concat_indexed_dataframes\<close>\<close>

text \<open>
  \<open>concat_indexed_dataframes(dfs, join)\<close>.  The column inference
  \<open>pd.concat(empties, 0, join).columns\<close> is the parameter \<open>pd_concat_columns\<close>.
\<close>

definition concat_indexed_dataframes ::
  "(string list list \<Rightarrow> string \<Rightarrow> error + string list) \<Rightarrow>
   string \<Rightarrow> 'a::linorder dataframe list \<Rightarrow> string \<Rightarrow> stage list \<times> (error + 'a dataframe)" where
  "concat_indexed_dataframes pd_concat_columns tok dfs join =
     (if join \<in> {''inner'', ''outer''} then
        (case align dfs of
           Inl e \<Rightarrow> ([AlignCalled], Inl e)
         | Inr (dfs2, divs, parts) \<Rightarrow>
            (let empties = map columns dfs in
             case pd_concat_columns empties join of
               Inl e \<Rightarrow> ([AlignCalled], Inl e)
             | Inr cols \<Rightarrow>
                (let parts2 = map (\<lambda>part. map (\<lambda>(df, empty).
                                 case df of Some k \<Rightarrow> Part k | None \<Rightarrow> Empty empty)
                               (zip part empties)) parts;
                     nm = ''concat-indexed'' @ tok;
                     dsk = map (\<lambda>(i, part). ((nm, i), Some (Concat part join)))
                             (enumerate 0 parts2)
                 in ([AlignCalled],
                     Inr (DataFrame (merge (dict dsk # map dask dfs2)) nm cols divs)))))
      else ([], Inl AssertionError))"

section \<open>Auxiliary notions for the properties\<close>

text \<open>
  The column of one input in the matrix built by \<open>align_loop\<close>: the entries that the
  walk records for the repartitioned input \<open>df2\<close>, started with its cursor at \<open>j\<close>.
\<close>

fun align_column :: "'a dataframe \<Rightarrow> nat \<Rightarrow> 'a list \<Rightarrow> key option list" where
  "align_column df2 j [] = []"
| "align_column df2 j (d # ds) =
     fst (align_slot df2 j d) # align_column df2 (snd (align_slot df2 j d)) ds"

text \<open>
  The boundary sequence of input \<open>k\<close> read back from an alignment matrix, in the words
  of the specification: the common boundary of every row where slot \<open>k\<close> is present,
  rows where it is absent being ignored, followed by the closing boundary of the last
  such row.
\<close>

definition rederive_boundaries :: "nat \<Rightarrow> 'a list \<Rightarrow> key option list list \<Rightarrow> 'a list" where
  "rederive_boundaries k divs parts =
     (let present = filter (\<lambda>j. parts ! j ! k \<noteq> None) [0..<length parts]
      in if present = [] then []
         else map (\<lambda>j. divs ! j) present @ [divs ! (last present + 1)])"

text \<open>A dataset with an empty graph, for concrete inputs.\<close>

definition frame :: "string \<Rightarrow> 'd list \<Rightarrow> 'd dataframe" where
  "frame nm ds = \<lparr>dask = Map.empty, df_name = nm, columns = [nm], divisions = ds\<rparr>"

section \<open>Binary search and \<open>bound\<close> on sorted sequences\<close>

lemma sorted_takeWhile_less:
  fixes a :: "'a::linorder list"
  shows "sorted a \<Longrightarrow> takeWhile (\<lambda>e. e < x) a = filter (\<lambda>e. e < x) a"
proof (induction a)
  case Nil
  then show ?case by simp
next
  case (Cons y ys)
  show ?case
  proof (cases "y < x")
    case True
    with Cons show ?thesis by simp
  next
    case False
    with Cons.prems have "\<forall>e\<in>set ys. \<not> e < x" by auto
    then have "filter (\<lambda>e. e < x) ys = []" by (simp add: filter_empty_conv)
    with False show ?thesis by simp
  qed
qed

lemma sorted_takeWhile_le:
  fixes a :: "'a::linorder list"
  shows "sorted a \<Longrightarrow> takeWhile (\<lambda>e. e \<le> x) a = filter (\<lambda>e. e \<le> x) a"
proof (induction a)
  case Nil
  then show ?case by simp
next
  case (Cons y ys)
  show ?case
  proof (cases "y \<le> x")
    case True
    with Cons show ?thesis by simp
  next
    case False
    with Cons.prems have "\<forall>e\<in>set ys. \<not> e \<le> x" by auto
    then have "filter (\<lambda>e. e \<le> x) ys = []" by (simp add: filter_empty_conv)
    with False show ?thesis by simp
  qed
qed

lemma sorted_dropWhile_less:
  fixes a :: "'a::linorder list"
  shows "sorted a \<Longrightarrow> dropWhile (\<lambda>e. e < x) a = filter (\<lambda>e. x \<le> e) a"
proof (induction a)
  case Nil
  then show ?case by simp
next
  case (Cons y ys)
  show ?case
  proof (cases "y < x")
    case True
    with Cons show ?thesis by simp
  next
    case False
    with Cons.prems have "\<forall>e\<in>set ys. x \<le> e" by auto
    then have "filter (\<lambda>e. x \<le> e) ys = ys" by (simp add: filter_id_conv)
    with False show ?thesis by simp
  qed
qed

lemma nth_less_iff_takeWhile:
  fixes a :: "'a::linorder list"
  assumes "sorted a" "i < length a"
  shows "a ! i < x \<longleftrightarrow> i < length (takeWhile (\<lambda>e. e < x) a)"
proof
  assume lt: "a ! i < x"
  show "i < length (takeWhile (\<lambda>e. e < x) a)"
  proof (rule ccontr)
    assume "\<not> i < length (takeWhile (\<lambda>e. e < x) a)"
    then have k: "length (takeWhile (\<lambda>e. e < x) a) \<le> i" by simp
    with assms have "length (takeWhile (\<lambda>e. e < x) a) < length a" by simp
    then have "\<not> a ! length (takeWhile (\<lambda>e. e < x) a) < x"
      by (rule nth_length_takeWhile)
    moreover have "a ! length (takeWhile (\<lambda>e. e < x) a) \<le> a ! i"
      using assms k by (simp add: sorted_nth_mono)
    ultimately show False using lt by simp
  qed
next
  assume i: "i < length (takeWhile (\<lambda>e. e < x) a)"
  then have "takeWhile (\<lambda>e. e < x) a ! i \<in> set (takeWhile (\<lambda>e. e < x) a)"
    by (rule nth_mem)
  moreover from i have "takeWhile (\<lambda>e. e < x) a ! i = a ! i"
    by (rule takeWhile_nth)
  ultimately show "a ! i < x" by (metis set_takeWhileD)
qed

lemma nth_le_iff_takeWhile:
  fixes a :: "'a::linorder list"
  assumes "sorted a" "i < length a"
  shows "a ! i \<le> x \<longleftrightarrow> i < length (takeWhile (\<lambda>e. e \<le> x) a)"
proof
  assume lt: "a ! i \<le> x"
  show "i < length (takeWhile (\<lambda>e. e \<le> x) a)"
  proof (rule ccontr)
    assume "\<not> i < length (takeWhile (\<lambda>e. e \<le> x) a)"
    then have k: "length (takeWhile (\<lambda>e. e \<le> x) a) \<le> i" by simp
    with assms have "length (takeWhile (\<lambda>e. e \<le> x) a) < length a" by simp
    then have "\<not> a ! length (takeWhile (\<lambda>e. e \<le> x) a) \<le> x"
      by (rule nth_length_takeWhile)
    moreover have "a ! length (takeWhile (\<lambda>e. e \<le> x) a) \<le> a ! i"
      using assms k by (simp add: sorted_nth_mono)
    ultimately show False using lt by simp
  qed
next
  assume i: "i < length (takeWhile (\<lambda>e. e \<le> x) a)"
  then have "takeWhile (\<lambda>e. e \<le> x) a ! i \<in> set (takeWhile (\<lambda>e. e \<le> x) a)"
    by (rule nth_mem)
  moreover from i have "takeWhile (\<lambda>e. e \<le> x) a ! i = a ! i"
    by (rule takeWhile_nth)
  ultimately show "a ! i \<le> x" by (metis set_takeWhileD)
qed

lemma bisect_left_loop_sorted:
  fixes a :: "'a::linorder list"
  shows "sorted a \<Longrightarrow> lo \<le> length (takeWhile (\<lambda>e. e < x) a) \<Longrightarrow>
         length (takeWhile (\<lambda>e. e < x) a) \<le> hi \<Longrightarrow> hi \<le> length a \<Longrightarrow>
         bisect_left_loop a x lo hi = length (takeWhile (\<lambda>e. e < x) a)"
proof (induction a x lo hi rule: bisect_left_loop.induct)
  case (1 a x lo hi)
  let ?k = "length (takeWhile (\<lambda>e. e < x) a)"
  let ?mid = "(lo + hi) div 2"
  show ?case
  proof (cases "lo < hi")
    case False
    with "1.prems" show ?thesis by simp
  next
    case True
    then have mid: "?mid < length a" "lo \<le> ?mid" "?mid < hi" using "1.prems" by auto
    show ?thesis
    proof (cases "a ! ?mid < x")
      case lt: True
      then have "?mid < ?k" using nth_less_iff_takeWhile[OF "1.prems"(1) mid(1)] by simp
      then have "bisect_left_loop a x (?mid + 1) hi = ?k"
        using "1.IH"(1)[OF True lt "1.prems"(1)] "1.prems" by simp
      with True lt show ?thesis by simp
    next
      case ge: False
      then have "?k \<le> ?mid" using nth_less_iff_takeWhile[OF "1.prems"(1) mid(1)] by simp
      then have "bisect_left_loop a x lo ?mid = ?k"
        using "1.IH"(2)[OF True ge "1.prems"(1)] "1.prems" mid by simp
      with True ge show ?thesis by simp
    qed
  qed
qed

lemma bisect_right_loop_sorted:
  fixes a :: "'a::linorder list"
  shows "sorted a \<Longrightarrow> lo \<le> length (takeWhile (\<lambda>e. e \<le> x) a) \<Longrightarrow>
         length (takeWhile (\<lambda>e. e \<le> x) a) \<le> hi \<Longrightarrow> hi \<le> length a \<Longrightarrow>
         bisect_right_loop a x lo hi = length (takeWhile (\<lambda>e. e \<le> x) a)"
proof (induction a x lo hi rule: bisect_right_loop.induct)
  case (1 a x lo hi)
  let ?k = "length (takeWhile (\<lambda>e. e \<le> x) a)"
  let ?mid = "(lo + hi) div 2"
  show ?case
  proof (cases "lo < hi")
    case False
    with "1.prems" show ?thesis by simp
  next
    case True
    then have mid: "?mid < length a" "lo \<le> ?mid" "?mid < hi" using "1.prems" by auto
    show ?thesis
    proof (cases "x < a ! ?mid")
      case gt: True
      then have "?k \<le> ?mid" using nth_le_iff_takeWhile[OF "1.prems"(1) mid(1), of x]
        by (auto simp: not_le)
      then have "bisect_right_loop a x lo ?mid = ?k"
        using "1.IH"(1)[OF True gt "1.prems"(1)] "1.prems" mid by simp
      with True gt show ?thesis by simp
    next
      case le: False
      then have "?mid < ?k" using nth_le_iff_takeWhile[OF "1.prems"(1) mid(1), of x]
        by (auto simp: not_less)
      then have "bisect_right_loop a x (?mid + 1) hi = ?k"
        using "1.IH"(2)[OF True le "1.prems"(1)] "1.prems" by simp
      with True le show ?thesis by simp
    qed
  qed
qed

lemma bisect_left_sorted:
  fixes a :: "'a::linorder list"
  shows "sorted a \<Longrightarrow> bisect_left a x = length (filter (\<lambda>e. e < x) a)"
  unfolding bisect_left_def
  using bisect_left_loop_sorted[of a 0 x "length a"]
  by (simp add: length_takeWhile_le sorted_takeWhile_less)

lemma bisect_right_sorted:
  fixes a :: "'a::linorder list"
  shows "sorted a \<Longrightarrow> bisect_right a x = length (filter (\<lambda>e. e \<le> x) a)"
  unfolding bisect_right_def
  using bisect_right_loop_sorted[of a 0 x "length a"]
  by (simp add: length_takeWhile_le sorted_takeWhile_le)

lemma bound_sorted:
  fixes seq :: "'a::linorder list"
  assumes "sorted seq" "left \<le> right"
  shows "bound seq left right = filter (\<lambda>e. left \<le> e \<and> e \<le> right) seq"
proof -
  let ?t = "filter (\<lambda>e. e \<le> right) seq"
  have t: "take (bisect_right seq right) seq = ?t"
    using assms(1) takeWhile_eq_take[of "\<lambda>e. e \<le> right" seq]
    by (simp add: bisect_right_sorted sorted_takeWhile_le)
  have st: "sorted ?t" using assms(1) by (simp add: sorted_wrt_filter)
  have "filter (\<lambda>e. e < left) ?t = filter (\<lambda>e. e < left) seq"
    using assms(2) by (auto intro: filter_cong)
  then have "bisect_left seq left = length (takeWhile (\<lambda>e. e < left) ?t)"
    using assms(1) st by (simp add: bisect_left_sorted sorted_takeWhile_less)
  then have "drop (bisect_left seq left) ?t = dropWhile (\<lambda>e. e < left) ?t"
    by (simp add: dropWhile_eq_drop)
  also have "\<dots> = filter (\<lambda>e. left \<le> e) ?t" using st by (rule sorted_dropWhile_less)
  also have "\<dots> = filter (\<lambda>e. left \<le> e \<and> e \<le> right) seq" by (auto intro: filter_cong)
  finally show ?thesis by (simp add: bound_def slice_def t)
qed

lemma bound_contiguous:
  fixes seq :: "'a::linorder list"
  assumes "sorted seq" "left \<le> right"
  shows "seq = takeWhile (\<lambda>e. e < left) seq @ bound seq left right
               @ dropWhile (\<lambda>e. e \<le> right) seq"
proof -
  let ?lo = "bisect_left seq left" and ?hi = "bisect_right seq right"
  have lo: "?lo = length (takeWhile (\<lambda>e. e < left) seq)"
    using assms(1) by (simp add: bisect_left_sorted sorted_takeWhile_less)
  have hi: "?hi = length (takeWhile (\<lambda>e. e \<le> right) seq)"
    using assms(1) by (simp add: bisect_right_sorted sorted_takeWhile_le)
  have "filter (\<lambda>e. e < left) (filter (\<lambda>e. e \<le> right) seq) = filter (\<lambda>e. e < left) seq"
    using assms(2) by (auto intro: filter_cong)
  then have "length (filter (\<lambda>e. e < left) seq) \<le> length (filter (\<lambda>e. e \<le> right) seq)"
    using length_filter_le[of "\<lambda>e. e < left" "filter (\<lambda>e. e \<le> right) seq"] by simp
  then have le: "?lo \<le> ?hi" using assms(1) by (simp add: bisect_left_sorted bisect_right_sorted)
  have "seq = take ?hi seq @ drop ?hi seq" by simp
  also have "take ?hi seq = take ?lo (take ?hi seq) @ drop ?lo (take ?hi seq)"
    by (rule append_take_drop_id[symmetric])
  also have "take ?lo (take ?hi seq) = take ?lo seq" using le by (simp add: min_def)
  also have "take ?lo seq = takeWhile (\<lambda>e. e < left) seq"
    unfolding lo by (rule takeWhile_eq_take[symmetric])
  also have "drop ?hi seq = dropWhile (\<lambda>e. e \<le> right) seq"
    unfolding hi by (rule dropWhile_eq_drop[symmetric])
  finally show ?thesis by (simp add: bound_def slice_def)
qed

lemma sorted_dropWhile_le:
  fixes a :: "'a::linorder list"
  shows "sorted a \<Longrightarrow> dropWhile (\<lambda>e. e \<le> x) a = filter (\<lambda>e. x < e) a"
proof (induction a)
  case Nil
  then show ?case by simp
next
  case (Cons y ys)
  show ?case
  proof (cases "y \<le> x")
    case True
    with Cons show ?thesis by simp
  next
    case False
    with Cons.prems have "\<forall>e\<in>set ys. x < e" by auto
    then have "filter (\<lambda>e. x < e) ys = ys" by (simp add: filter_id_conv)
    with False show ?thesis by simp
  qed
qed

text \<open>
  C8: for every sorted sequence and \<open>left \<le> right\<close>, \<open>bound\<close> returns a contiguous
  slice of the sequence: every element before the slice is below \<open>left\<close>, every element
  after it is above \<open>right\<close>, and every element of the slice lies between \<open>left\<close> and
  \<open>right\<close>, both included.  So the slice starts at the first element \<open>\<ge> left\<close> and
  ends at the last element \<open>\<le> right\<close>.  In particular
  \<open>bound([1,3,4,5,8,10,12], 4, 10) = [4,5,8,10]\<close>.
\<close>

theorem bound_inclusive_slice:
  fixes seq :: "'a::linorder list"
  shows "sorted seq \<Longrightarrow> left \<le> right \<Longrightarrow>
    (\<exists>pre post. seq = pre @ bound seq left right @ post
        \<and> (\<forall>e\<in>set pre. e < left) \<and> (\<forall>e\<in>set post. right < e))
    \<and> (\<forall>e\<in>set (bound seq left right). left \<le> e \<and> e \<le> right)
    \<and> bound seq left right = filter (\<lambda>e. left \<le> e \<and> e \<le> right) seq
    \<and> bound [1, 3, 4, 5, 8, 10, 12 :: int] 4 10 = [4, 5, 8, 10]"
proof -
  assume s: "sorted seq" and le: "left \<le> right"
  have pre: "\<forall>e\<in>set (takeWhile (\<lambda>e. e < left) seq). e < left"
    by (auto dest: set_takeWhileD)
  have post: "\<forall>e\<in>set (dropWhile (\<lambda>e. e \<le> right) seq). right < e"
    using s by (simp add: sorted_dropWhile_le)
  have ex: "bound [1, 3, 4, 5, 8, 10, 12 :: int] 4 10 = [4, 5, 8, 10]"
    by (simp add: bound_def slice_def bisect_left_def bisect_right_def)
  from bound_contiguous[OF s le] pre post
  have "\<exists>pre post. seq = pre @ bound seq left right @ post
        \<and> (\<forall>e\<in>set pre. e < left) \<and> (\<forall>e\<in>set post. right < e)"
    by blast
  then show ?thesis using ex by (simp add: bound_sorted[OF s le])
qed

theorem bound_inclusive_slice_witness:
  "sorted [1, 3, 4, 5, 8, 10, 12 :: int] \<and> (4 :: int) \<le> 10
   \<and> bound [1, 3, 4, 5, 8, 10, 12 :: int] 4 10
       = filter (\<lambda>e. 4 \<le> e \<and> e \<le> 10) [1, 3, 4, 5, 8, 10, 12]
   \<and> bound [1, 3, 4, 5, 8, 10, 12 :: int] 4 10 = [4, 5, 8, 10]"
  using bound_inclusive_slice[of "[1, 3, 4, 5, 8, 10, 12 :: int]" 4 10] by simp

section \<open>\<open>require\<close> without required slots\<close>


text \<open>
  C7: \<open>require\<close> with \<open>required=[]\<close> returns the boundary sequence and the alignment
  matrix it was given, unchanged, for every boundary sequence and every matrix.
\<close>

theorem require_empty_identity: "require divs parts (Some []) = Inr (divs, parts)"
  by (simp add: require_def)

section \<open>\<open>hash_join\<close> without an explicit partition count\<close>

text \<open>
  C9: called without \<open>npartitions\<close>, \<open>hash_join\<close> uses the maximum of the two inputs'
  partition counts as the bucket count: it returns what the call with that count given
  explicitly returns, both inputs are shuffled into that many buckets and there is one
  merge task per bucket.  The boundary sequence of the output consists of \<open>None\<close>
  entries only and has length \<open>npartitions + 1\<close>.  The output exists whenever the
  table library's column inference on the two empty tables succeeds.
\<close>

theorem hash_join_default_npartitions:
  fixes lhs rhs :: "'d dataframe" and shuffle :: "'d dataframe \<Rightarrow> string \<Rightarrow> int \<Rightarrow> 's dataframe"
  assumes "pd_merge_columns (columns lhs) (columns rhs) how on_left on_right = Inr cols"
  shows "\<exists>out :: 'e option dataframe.
      hash_join shuffle pd_merge_columns tok lhs on_left rhs on_right how None suffixes = Inr out
    \<and> hash_join shuffle pd_merge_columns tok lhs on_left rhs on_right how
         (Some (max (npartitions lhs) (npartitions rhs))) suffixes = Inr out
    \<and> dask out = merge [dask (shuffle lhs on_left (max (npartitions lhs) (npartitions rhs))),
                         dask (shuffle rhs on_right (max (npartitions lhs) (npartitions rhs))),
                         dict (map (\<lambda>i. ((''hash-join'' @ tok, i),
                            Some (Merge (df_name (shuffle lhs on_left (max (npartitions lhs) (npartitions rhs))), i)
                                        (df_name (shuffle rhs on_right (max (npartitions lhs) (npartitions rhs))), i)
                                        how on_left on_right suffixes)))
                          [0..<nat (max (npartitions lhs) (npartitions rhs))])]
    \<and> divisions out = replicate (nat (max (npartitions lhs) (npartitions rhs) + 1)) None
    \<and> int (length (divisions out)) = max (npartitions lhs) (npartitions rhs) + 1"
proof -
  have "0 \<le> max (npartitions lhs) (npartitions rhs) + 1"
    by (simp add: npartitions_def max_def)
  then show ?thesis
    using assms by (simp add: hash_join_def DataFrame_def Let_def)
qed

theorem hash_join_default_npartitions_witness:
  "(\<lambda>l r h ol or. Inr (l @ r)) [''id'', ''x''] [''id'', ''y''] ''inner'' ''id'' ''id''
      = (Inr [''id'', ''x'', ''id'', ''y''] :: error + string list)
   \<and> (\<exists>out :: int option dataframe.
        hash_join (\<lambda>df on n. \<lparr>dask = Map.empty, df_name = ''shuffle-'' @ df_name df,
                       columns = columns df, divisions = replicate (nat (n + 1)) (None :: int option)\<rparr>)
          (\<lambda>l r h ol or. Inr (l @ r)) ''-1''
          \<lparr>dask = Map.empty, df_name = ''a'', columns = [''id'', ''x''], divisions = [1, 5, 9 :: int]\<rparr> ''id''
          \<lparr>dask = Map.empty, df_name = ''b'', columns = [''id'', ''y''], divisions = [2, 4, 6, 8 :: int]\<rparr> ''id''
          ''inner'' None (''_x'', ''_y'') = Inr out
      \<and> divisions out = [None, None, None, None])"
  using hash_join_default_npartitions[of "\<lambda>l r h ol or. Inr (l @ r)"
      "\<lparr>dask = Map.empty, df_name = ''a'', columns = [''id'', ''x''], divisions = [1, 5, 9 :: int]\<rparr>"
      "\<lparr>dask = Map.empty, df_name = ''b'', columns = [''id'', ''y''], divisions = [2, 4, 6, 8 :: int]\<rparr>"
      "''inner''" "''id''" "''id''" "[''id'', ''x'', ''id'', ''y'']"
      "\<lambda>df on n. \<lparr>dask = Map.empty, df_name = ''shuffle-'' @ df_name df,
                       columns = columns df, divisions = replicate (nat (n + 1)) (None :: int option)\<rparr>"
      "''-1''" "(''_x'', ''_y'')", where ?'e = int]
  by (auto simp add: npartitions_def numeral_eq_Suc)

section \<open>\<open>merge_sorted\<close> and \<open>unique\<close>\<close>

lemma set_merge2: "set (merge2 xs ys) = set xs \<union> set ys"
  by (induction xs ys rule: merge2.induct) auto

lemma sorted_merge2: "sorted xs \<Longrightarrow> sorted ys \<Longrightarrow> sorted (merge2 xs ys)"
  by (induction xs ys rule: merge2.induct) (auto simp: set_merge2)

lemma set_merge_sorted: "set (merge_sorted seqs) = \<Union> (set ` set seqs)"
  by (induction seqs) (simp_all add: merge_sorted_def set_merge2)

lemma sorted_merge_sorted: "\<forall>s\<in>set seqs. sorted s \<Longrightarrow> sorted (merge_sorted seqs)"
  by (induction seqs) (simp_all add: merge_sorted_def sorted_merge2)

lemma set_unique_seen: "set (unique_seen seen xs) = set xs - set seen"
  by (induction xs arbitrary: seen) auto

lemma distinct_unique_seen: "distinct (unique_seen seen xs)"
  by (induction xs arbitrary: seen) (auto simp: set_unique_seen)

lemma sorted_unique_seen:
  fixes xs :: "'a::linorder list"
  shows "sorted xs \<Longrightarrow> sorted (unique_seen seen xs)"
  by (induction xs arbitrary: seen) (auto simp: set_unique_seen)

lemma set_unique: "set (unique xs) = set xs"
  by (simp add: unique_def set_unique_seen)

lemma distinct_unique: "distinct (unique xs)"
  by (simp add: unique_def distinct_unique_seen)

lemma sorted_unique:
  fixes xs :: "'a::linorder list"
  shows "sorted xs \<Longrightarrow> sorted (unique xs)"
  by (simp add: unique_def sorted_unique_seen)

text \<open>The common boundary sequence of sorted inputs.\<close>

lemma common_divisions:
  fixes dfs :: "'a::linorder dataframe list"
  assumes "\<forall>df\<in>set dfs. sorted (divisions df)"
  shows "sorted (unique (merge_sorted (map divisions dfs)))"
    and "distinct (unique (merge_sorted (map divisions dfs)))"
    and "set (unique (merge_sorted (map divisions dfs))) = \<Union> (set ` divisions ` set dfs)"
  using assms
  by (simp_all add: sorted_unique sorted_merge_sorted distinct_unique set_unique set_merge_sorted image_image)

lemma common_divisions_eq:
  fixes dfs :: "'a::linorder dataframe list"
  assumes "\<forall>df\<in>set dfs. sorted (divisions df)"
    and "sorted ds" "distinct ds" "set ds = \<Union> (set ` divisions ` set dfs)"
  shows "unique (merge_sorted (map divisions dfs)) = ds"
  using common_divisions[OF assms(1)] assms(2-4)
  by (metis sorted_distinct_set_unique)

section \<open>The walk of \<open>align\<close>\<close>

lemma length_align_loop: "length (align_loop dfs2 inds ds) = length ds"
  by (induction ds arbitrary: inds) simp_all

lemma length_align_column: "length (align_column df2 j ds) = length ds"
  by (induction ds arbitrary: j) simp_all

lemma align_loop_row_length:
  "length inds = length dfs2 \<Longrightarrow> L \<in> set (align_loop dfs2 inds ds) \<Longrightarrow> length L = length dfs2"
proof (induction ds arbitrary: inds)
  case Nil
  then show ?case by simp
next
  case (Cons d ds)
  from Cons.prems(2) consider "L = fst (align_row dfs2 inds d)"
    | "L \<in> set (align_loop dfs2 (snd (align_row dfs2 inds d)) ds)" by auto
  then show ?case
  proof cases
    case 1
    with Cons.prems(1) show ?thesis by (simp add: align_row_def)
  next
    case 2
    moreover have "length (snd (align_row dfs2 inds d)) = length dfs2"
      using Cons.prems(1) by (simp add: align_row_def)
    ultimately show ?thesis by (rule Cons.IH[rotated])
  qed
qed

lemma align_loop_column:
  "length inds = length dfs2 \<Longrightarrow> i < length dfs2 \<Longrightarrow>
   map (\<lambda>L. L ! i) (align_loop dfs2 inds ds) = align_column (dfs2 ! i) (inds ! i) ds"
  by (induction ds arbitrary: inds) (simp_all add: align_row_def)

lemma align_loop_pair:
  "align_loop [l, r] [i, j] ds =
   map (\<lambda>(x, y). [x, y]) (zip (align_column l i ds) (align_column r j ds))"
  by (induction ds arbitrary: i j) (simp_all add: align_row_def)

text \<open>The three phases of a column: before, inside and after the input's boundaries.\<close>

lemma align_column_before:
  assumes "\<forall>d\<in>set pre. d \<noteq> divisions df2 ! 0"
  shows "align_column df2 0 (pre @ rest) = replicate (length pre) None @ align_column df2 0 rest"
  using assms by (induction pre) (auto simp: align_slot_def)

lemma align_column_after:
  assumes "length (divisions df2) \<le> j + 1"
  shows "align_column df2 j rest = replicate (length rest) None"
  using assms by (induction rest) (simp_all add: align_slot_def)

lemma align_column_inside:
  assumes "j + 1 \<le> length (divisions df2)"
  shows "align_column df2 j (drop j (butlast (divisions df2)) @ rest) =
         map (\<lambda>k. Some (df_name df2, k)) [j..<length (divisions df2) - 1]
         @ align_column df2 (length (divisions df2) - 1) rest"
  using assms
proof (induction "length (divisions df2) - 1 - j" arbitrary: j)
  case 0
  then have "j = length (divisions df2) - 1" by simp
  then show ?case by simp
next
  case (Suc n)
  then have j: "j < length (divisions df2) - 1" by simp
  then have jb: "j < length (butlast (divisions df2))" by simp
  then have "drop j (butlast (divisions df2)) =
      butlast (divisions df2) ! j # drop (Suc j) (butlast (divisions df2))"
    by (rule Cons_nth_drop_Suc[symmetric])
  with jb have "drop j (butlast (divisions df2)) =
      divisions df2 ! j # drop (Suc j) (butlast (divisions df2))"
    by (simp add: nth_butlast)
  moreover have "[j..<length (divisions df2) - 1] = j # [Suc j..<length (divisions df2) - 1]"
    using j by (simp add: upt_conv_Cons)
  moreover have "align_column df2 (Suc j) (drop (Suc j) (butlast (divisions df2)) @ rest) =
         map (\<lambda>k. Some (df_name df2, k)) [Suc j..<length (divisions df2) - 1]
         @ align_column df2 (length (divisions df2) - 1) rest"
    using Suc.hyps(1)[of "Suc j"] Suc.hyps(2) j by simp
  ultimately show ?case using j by (simp add: align_slot_def)
qed

lemma align_column_slice:
  assumes ne: "divisions df2 \<noteq> []"
    and d: "distinct (pre @ divisions df2 @ post)"
  shows "align_column df2 0 (butlast (pre @ divisions df2 @ post)) =
         replicate (length pre) None
         @ map (\<lambda>k. Some (df_name df2, k)) [0..<length (divisions df2) - 1]
         @ replicate (length post) None"
proof -
  let ?ds = "divisions df2"
  obtain rest where rest: "butlast (pre @ ?ds @ post) = pre @ butlast ?ds @ rest"
    "length rest = length post"
  proof (cases "post = []")
    case True
    with ne have "butlast (pre @ ?ds @ post) = pre @ butlast ?ds @ []" "length [] = length post"
      by (simp_all add: butlast_append)
    then show ?thesis by (rule that)
  next
    case False
    with ne have "butlast (pre @ ?ds @ post) = pre @ butlast ?ds @ (last ?ds # butlast post)"
      "length (last ?ds # butlast post) = length post"
      by (simp_all add: butlast_append)
    then show ?thesis by (rule that)
  qed
  have "?ds ! 0 \<in> set ?ds" using ne by simp
  with d have pre: "\<forall>d\<in>set pre. d \<noteq> ?ds ! 0" by auto
  have "align_column df2 0 (pre @ butlast ?ds @ rest) =
        replicate (length pre) None @ align_column df2 0 (butlast ?ds @ rest)"
    by (rule align_column_before[OF pre])
  also have "align_column df2 0 (butlast ?ds @ rest) =
        map (\<lambda>k. Some (df_name df2, k)) [0..<length ?ds - 1]
         @ align_column df2 (length ?ds - 1) rest"
    using align_column_inside[of 0 df2 rest] ne by (simp add: Suc_leI)
  also have "align_column df2 (length ?ds - 1) rest = replicate (length rest) None"
    by (rule align_column_after) simp
  finally show ?thesis by (simp add: rest)
qed

lemma align_unfold:
  fixes dfs :: "'a::linorder dataframe list"
  assumes "[] \<notin> set (map divisions dfs)"
  shows "align dfs =
    Inr (map (\<lambda>df. repartition df (bound (unique (merge_sorted (map divisions dfs)))
                                   (hd (divisions df)) (last (divisions df)))) dfs,
         unique (merge_sorted (map divisions dfs)),
         align_loop
           (map (\<lambda>df. repartition df (bound (unique (merge_sorted (map divisions dfs)))
                                   (hd (divisions df)) (last (divisions df)))) dfs)
           (map (\<lambda>df. 0) dfs)
           (butlast (unique (merge_sorted (map divisions dfs)))))"
proof -
  have "\<And>f. map (\<lambda>(df, ds). repartition df ds) (zip dfs (map f dfs))
      = map (\<lambda>df. repartition df (f df)) dfs"
    by (simp add: zip_map2 zip_same_conv_map)
  then show ?thesis using assms by (simp add: align_def Let_def)
qed

lemma sorted_hd_le_last:
  fixes a :: "'a::linorder list"
  shows "sorted a \<Longrightarrow> a \<noteq> [] \<Longrightarrow> hd a \<le> last a"
  by (cases a) auto

lemma sorted_in_range:
  fixes a :: "'a::linorder list"
  assumes "sorted a" "e \<in> set a"
  shows "hd a \<le> e \<and> e \<le> last a"
proof -
  from assms(2) obtain i where i: "i < length a" and e: "e = a ! i"
    by (auto simp: in_set_conv_nth)
  have "a ! 0 \<le> a ! i" using assms(1) i by (simp add: sorted_nth_mono)
  moreover have "a ! i \<le> a ! (length a - 1)" using assms(1) i by (simp add: sorted_nth_mono)
  moreover have "a \<noteq> []" using i by auto
  ultimately show ?thesis unfolding e by (simp add: hd_conv_nth last_conv_nth)
qed

text \<open>The slice of the common boundaries that one input is repartitioned onto.\<close>

lemma own_slice:
  fixes a divs :: "'a::linorder list"
  assumes "sorted divs" "sorted a" "a \<noteq> []" "set a \<subseteq> set divs"
  shows "bound divs (hd a) (last a) = filter (\<lambda>e. hd a \<le> e \<and> e \<le> last a) divs"
    and "divs = takeWhile (\<lambda>e. e < hd a) divs @ bound divs (hd a) (last a)
                @ dropWhile (\<lambda>e. e \<le> last a) divs"
    and "set a \<subseteq> set (bound divs (hd a) (last a))"
    and "bound divs (hd a) (last a) \<noteq> []"
proof -
  have le: "hd a \<le> last a" using assms(2,3) by (rule sorted_hd_le_last)
  show b: "bound divs (hd a) (last a) = filter (\<lambda>e. hd a \<le> e \<and> e \<le> last a) divs"
    using assms(1) le by (rule bound_sorted)
  show "divs = takeWhile (\<lambda>e. e < hd a) divs @ bound divs (hd a) (last a)
                @ dropWhile (\<lambda>e. e \<le> last a) divs"
    using assms(1) le by (rule bound_contiguous)
  show s: "set a \<subseteq> set (bound divs (hd a) (last a))"
    using assms(4) sorted_in_range[OF assms(2)] by (auto simp: b)
  from assms(3) s show "bound divs (hd a) (last a) \<noteq> []" by (cases a) auto
qed

lemma align_column_own_slice:
  fixes divs :: "'a::linorder list"
  assumes "sorted divs" "distinct divs" "sorted a" "a \<noteq> []" "set a \<subseteq> set divs"
    and "divisions df2 = bound divs (hd a) (last a)"
  shows "align_column df2 0 (butlast divs) =
         replicate (length (takeWhile (\<lambda>e. e < hd a) divs)) None
         @ map (\<lambda>k. Some (df_name df2, k)) [0..<length (divisions df2) - 1]
         @ replicate (length (dropWhile (\<lambda>e. e \<le> last a) divs)) None"
proof -
  note s = own_slice[OF assms(1,3,4,5)]
  have ne: "divisions df2 \<noteq> []" using s(4) assms(6) by simp
  have eq: "divs = takeWhile (\<lambda>e. e < hd a) divs @ divisions df2
                @ dropWhile (\<lambda>e. e \<le> last a) divs"
    using s(2) assms(6) by simp
  then have d: "distinct (takeWhile (\<lambda>e. e < hd a) divs @ divisions df2
                @ dropWhile (\<lambda>e. e \<le> last a) divs)"
    using assms(2) by simp
  from align_column_slice[OF ne d] eq show ?thesis by simp
qed

section \<open>The common boundary sequence\<close>

lemma example_common: "unique (merge_sorted [[1, 1, 4], [1, 2, 3, 4 :: int]]) = [1, 2, 3, 4]"
  by (simp add: merge_sorted_def unique_def)

lemma example_bound: "bound [1, 2, 3, 4 :: int] 1 4 = [1, 2, 3, 4]"
  by (simp add: bound_def slice_def bisect_left_def bisect_right_def)

lemma example_align: "align [frame ''a'' [1, 1, 4 :: int], frame ''b'' [1, 2, 3, 4 :: int]] =
  Inr ([frame ''a'' [1, 2, 3, 4 :: int], frame ''b'' [1, 2, 3, 4 :: int]], [1, 2, 3, 4],
   [[Some (''a'', 0), Some (''b'', 0)], [Some (''a'', 1), Some (''b'', 1)], [Some (''a'', 2), Some (''b'', 2)]])"
  by (simp add: align_def frame_def example_common example_bound Let_def repartition_def align_row_def align_slot_def)

lemma example_card: "card (\<Union> (set ` divisions ` set [frame ''a'' [1, 1, 4 :: int], frame ''b'' [1, 2, 3, 4 :: int]])) = 4"
  by (simp add: frame_def insert_commute)


text \<open>
  C10, as amended: for every non-empty collection of inputs whose boundary sequences
  are non-empty and non-decreasing, the common boundary sequence returned by \<open>align\<close> is
  strictly increasing and holds every boundary value of the inputs once, so the alignment
  matrix has (number of distinct boundary values - 1) rows.  Each input is repartitioned
  onto the common boundaries within its own range: a strictly increasing sequence that
  contains every boundary value of the input, together with the boundaries of the other
  inputs that fall inside its range.  It has at least as many entries as the input has
  distinct boundary values; it need not have fewer entries than the input had.
\<close>

theorem align_common_boundaries:
  fixes dfs :: "'a::linorder dataframe list"
  assumes "dfs \<noteq> []" and "\<forall>df\<in>set dfs. sorted (divisions df) \<and> divisions df \<noteq> []"
  shows "\<exists>dfs2 divs parts.
      align dfs = Inr (dfs2, divs, parts)
    \<and> sorted_wrt (<) divs
    \<and> set divs = \<Union> (set ` divisions ` set dfs)
    \<and> length parts + 1 = card (\<Union> (set ` divisions ` set dfs))
    \<and> length dfs2 = length dfs
    \<and> (\<forall>i<length dfs.
          divisions (dfs2 ! i) =
            filter (\<lambda>e. hd (divisions (dfs ! i)) \<le> e \<and> e \<le> last (divisions (dfs ! i))) divs
        \<and> sorted_wrt (<) (divisions (dfs2 ! i))
        \<and> set (divisions (dfs ! i)) \<subseteq> set (divisions (dfs2 ! i))
        \<and> card (set (divisions (dfs ! i))) \<le> length (divisions (dfs2 ! i)))"
proof -
  let ?divs = "unique (merge_sorted (map divisions dfs))"
  let ?dfs2 = "map (\<lambda>df. repartition df (bound ?divs (hd (divisions df)) (last (divisions df)))) dfs"
  let ?parts = "align_loop ?dfs2 (map (\<lambda>df. 0) dfs) (butlast ?divs)"
  have srt: "\<forall>df\<in>set dfs. sorted (divisions df)" using assms(2) by simp
  note c = common_divisions[OF srt]
  have "[] \<notin> set (map divisions dfs)" using assms(2) by auto
  then have al: "align dfs = Inr (?dfs2, ?divs, ?parts)" by (rule align_unfold)
  have strict: "sorted_wrt (<) ?divs" using c(1,2) by (simp add: strict_sorted_iff)
  have "set ?divs \<noteq> {}" using assms c(3) by (cases dfs) auto
  then have "length ?divs \<noteq> 0" by auto
  then have len: "length ?parts + 1 = card (\<Union> (set ` divisions ` set dfs))"
    using distinct_card[OF c(2)] c(3) by (simp add: length_align_loop)
  have each: "\<forall>i<length dfs.
          divisions (?dfs2 ! i) =
            filter (\<lambda>e. hd (divisions (dfs ! i)) \<le> e \<and> e \<le> last (divisions (dfs ! i))) ?divs
        \<and> sorted_wrt (<) (divisions (?dfs2 ! i))
        \<and> set (divisions (dfs ! i)) \<subseteq> set (divisions (?dfs2 ! i))
        \<and> card (set (divisions (dfs ! i))) \<le> length (divisions (?dfs2 ! i))"
  proof (intro allI impI)
    fix i assume i: "i < length dfs"
    let ?a = "divisions (dfs ! i)"
    have mem: "dfs ! i \<in> set dfs" using i by simp
    then have a: "sorted ?a" "?a \<noteq> []" using assms(2) by auto
    have sub: "set ?a \<subseteq> set ?divs" using mem c(3) by auto
    note s = own_slice[OF c(1) a sub]
    have d2: "divisions (?dfs2 ! i) = bound ?divs (hd ?a) (last ?a)"
      using i by (simp add: repartition_def)
    have st: "sorted_wrt (<) (divisions (?dfs2 ! i))"
      unfolding d2 s(1) using strict by (rule sorted_wrt_filter)
    then have "distinct (divisions (?dfs2 ! i))" by (simp add: strict_sorted_iff)
    then have "card (set (divisions (?dfs2 ! i))) = length (divisions (?dfs2 ! i))"
      by (rule distinct_card)
    moreover have "card (set ?a) \<le> card (set (divisions (?dfs2 ! i)))"
      using s(3) d2 by (simp add: card_mono)
    ultimately show "divisions (?dfs2 ! i) =
            filter (\<lambda>e. hd ?a \<le> e \<and> e \<le> last ?a) ?divs
        \<and> sorted_wrt (<) (divisions (?dfs2 ! i))
        \<and> set ?a \<subseteq> set (divisions (?dfs2 ! i))
        \<and> card (set ?a) \<le> length (divisions (?dfs2 ! i))"
      using d2 s(1,3) st by simp
  qed
  have l2: "length ?dfs2 = length dfs" by simp
  show ?thesis
    by (rule exI[of _ ?dfs2], rule exI[of _ ?divs], rule exI[of _ ?parts])
       (intro conjI al strict c(3) len l2 each)
qed

text \<open>
  The claim as stated fails: the input with boundaries \<open>[1, 1, 4]\<close>, aligned with
  \<open>[1, 2, 3, 4]\<close>, is repartitioned onto four boundaries, more than the three it had.
\<close>

theorem align_not_fewer_boundaries:
  "\<exists>dfs2 divs parts.
      align [frame ''a'' [1, 1, 4 :: int], frame ''b'' [1, 2, 3, 4 :: int]] = Inr (dfs2, divs, parts)
    \<and> divs = [1, 2, 3, 4]
    \<and> divisions (dfs2 ! 0) = [1, 2, 3, 4]
    \<and> \<not> length (divisions (dfs2 ! 0)) < length (divisions (frame ''a'' [1, 1, 4 :: int]))"
  by (simp add: example_align) (simp add: frame_def)

theorem align_common_boundaries_witness:
  "[frame ''a'' [1, 1, 4 :: int], frame ''b'' [1, 2, 3, 4 :: int]] \<noteq> []
   \<and> list_all (\<lambda>df. sorted (divisions df) \<and> divisions df \<noteq> []) [frame ''a'' [1, 1, 4 :: int], frame ''b'' [1, 2, 3, 4 :: int]]
   \<and> (\<exists>dfs2 divs parts.
      align [frame ''a'' [1, 1, 4 :: int], frame ''b'' [1, 2, 3, 4 :: int]] = Inr (dfs2, divs, parts)
      \<and> sorted_wrt (<) divs \<and> length parts + 1 = 4)"
proof -
  have h: "\<forall>df\<in>set [frame ''a'' [1, 1, 4 :: int], frame ''b'' [1, 2, 3, 4 :: int]]. sorted (divisions df) \<and> divisions df \<noteq> []"
    by (simp add: frame_def)
  have ne: "[frame ''a'' [1, 1, 4 :: int], frame ''b'' [1, 2, 3, 4 :: int]] \<noteq> []" by simp
  from align_common_boundaries[OF ne h] obtain dfs2 divs parts where
    "align [frame ''a'' [1, 1, 4 :: int], frame ''b'' [1, 2, 3, 4 :: int]] = Inr (dfs2, divs, parts)"
    "sorted_wrt (<) divs"
    "length parts + 1 = card (\<Union> (set ` divisions ` set [frame ''a'' [1, 1, 4 :: int], frame ''b'' [1, 2, 3, 4 :: int]]))"
    by blast
  with example_card h show ?thesis by (simp add: list_all_iff)
qed

section \<open>Reading an input's boundaries back from the alignment matrix\<close>

lemma map_nth_upt_slice:
  assumes "i + n \<le> length xs"
  shows "map (\<lambda>j. xs ! j) [i..<i + n] = take n (drop i xs)"
  using assms by (intro nth_equalityI) simp_all

lemma present_rows_of_column:
  "filter (\<lambda>j. (replicate p None @ map (\<lambda>k. Some (f k)) [0..<m] @ replicate q None) ! j \<noteq> None)
     [0..<p + m + q] = [p..<p + m]"
proof -
  let ?col = "replicate p None @ map (\<lambda>k. Some (f k)) [0..<m] @ replicate q None"
  have "[0..<p + m + q] = [0..<p + m] @ [p + m..<p + m + q]"
    by (rule upt_add_eq_append) simp
  moreover have "[0..<p + m] = [0..<p] @ [p..<p + m]"
    by (rule upt_add_eq_append) simp
  ultimately have split: "[0..<p + m + q] = [0..<p] @ [p..<p + m] @ [p + m..<p + m + q]"
    by simp
  have a: "filter (\<lambda>j. ?col ! j \<noteq> None) [0..<p] = []"
    by (simp add: filter_empty_conv nth_append)
  have b: "filter (\<lambda>j. ?col ! j \<noteq> None) [p..<p + m] = [p..<p + m]"
    by (auto simp: filter_id_conv nth_append)
  have c: "filter (\<lambda>j. ?col ! j \<noteq> None) [p + m..<p + m + q] = []"
    by (auto simp: filter_empty_conv nth_append)
  show ?thesis unfolding split by (simp only: filter_append a b c append_Nil append_Nil2)
qed

lemma present_rows:
  assumes "map (\<lambda>L. L ! k) parts =
             replicate p None @ map (\<lambda>j. Some (f j)) [0..<m] @ replicate q None"
  shows "filter (\<lambda>j. parts ! j ! k \<noteq> None) [0..<length parts] = [p..<p + m]"
proof -
  let ?col = "replicate p None @ map (\<lambda>j. Some (f j)) [0..<m] @ replicate q None"
  have len: "length parts = p + m + q"
    using arg_cong[OF assms, of length] by simp
  have "filter (\<lambda>j. parts ! j ! k \<noteq> None) [0..<length parts]
      = filter (\<lambda>j. map (\<lambda>L. L ! k) parts ! j \<noteq> None) [0..<length parts]"
    by (rule filter_cong) simp_all
  also have "\<dots> = filter (\<lambda>j. ?col ! j \<noteq> None) [0..<p + m + q]"
    unfolding assms len ..
  also have "\<dots> = [p..<p + m]" by (rule present_rows_of_column)
  finally show ?thesis .
qed

lemma rederive_from_column:
  assumes col: "map (\<lambda>L. L ! k) parts =
             replicate (length pre) None @ map (\<lambda>j. Some (f j)) [0..<length bnd - 1]
             @ replicate (length post) None"
    and len: "2 \<le> length bnd"
  shows "rederive_boundaries k (pre @ bnd @ post) parts = bnd"
proof -
  let ?p = "length pre" and ?m = "length bnd - 1"
  have pres: "filter (\<lambda>j. parts ! j ! k \<noteq> None) [0..<length parts] = [?p..<?p + ?m]"
    using col by (rule present_rows)
  have m: "0 < ?m" using len by simp
  then have ne: "[?p..<?p + ?m] \<noteq> []" by simp
  have lst: "last [?p..<?p + ?m] + 1 = ?p + ?m" using m by simp
  have "map (\<lambda>j. (pre @ bnd @ post) ! j) [?p..<?p + ?m] = take ?m (drop ?p (pre @ bnd @ post))"
    by (rule map_nth_upt_slice) simp
  also have "\<dots> = butlast bnd" by (simp add: butlast_conv_take)
  finally have a: "map (\<lambda>j. (pre @ bnd @ post) ! j) [?p..<?p + ?m] = butlast bnd" .
  have "(pre @ bnd @ post) ! (?p + ?m) = (bnd @ post) ! ?m"
    by (rule nth_append_length_plus)
  also have "\<dots> = bnd ! ?m"
  proof -
    have "?m < length bnd" using len by arith
    then show ?thesis by (simp only: nth_append if_True)
  qed
  also have "\<dots> = last bnd" using len by (cases bnd) (simp_all add: last_conv_nth)
  finally have b: "(pre @ bnd @ post) ! (?p + ?m) = last bnd" .
  have "bnd \<noteq> []" using len by auto
  then have "butlast bnd @ [last bnd] = bnd" by simp
  moreover have "rederive_boundaries k (pre @ bnd @ post) parts =
      map (\<lambda>j. (pre @ bnd @ post) ! j) [?p..<?p + ?m]
      @ [(pre @ bnd @ post) ! (last [?p..<?p + ?m] + 1)]"
    unfolding rederive_boundaries_def pres Let_def using ne by (simp only: if_False)
  ultimately show ?thesis unfolding a lst b by simp
qed

lemma two_elements_length:
  assumes "x \<in> set xs" "y \<in> set xs" "x \<noteq> y"
  shows "2 \<le> length xs"
proof (cases xs)
  case Nil
  with assms show ?thesis by simp
next
  case (Cons u us)
  with assms have "us \<noteq> []" by auto
  with Cons show ?thesis by (cases us) simp_all
qed

lemma example_overlap_common: "unique (merge_sorted [[1, 5], [3, 7 :: int]]) = [1, 3, 5, 7]"
  by (simp add: merge_sorted_def unique_def)

lemma example_overlap_bound:
  "bound [1, 3, 5, 7 :: int] 1 5 = [1, 3, 5]" "bound [1, 3, 5, 7 :: int] 3 7 = [3, 5, 7]"
  by (simp_all add: bound_def slice_def bisect_left_def bisect_right_def)

lemma example_overlap_align:
  "align [frame ''a'' [1, 5 :: int], frame ''b'' [3, 7 :: int]] =
   Inr ([frame ''a'' [1, 3, 5], frame ''b'' [3, 5, 7]], [1, 3, 5, 7],
        [[Some (''a'', 0), None], [Some (''a'', 1), Some (''b'', 0)], [None, Some (''b'', 1)]])"
  by (simp add: align_def frame_def example_overlap_common example_overlap_bound Let_def
      repartition_def align_row_def align_slot_def)

lemma example_overlap_rederive:
  "rederive_boundaries 0 [1, 3, 5, 7 :: int]
     [[Some (''a'', 0), None], [Some (''a'', 1), Some (''b'', 0)], [None, Some (''b'', 1)]]
   = [1, 3, 5]"
  by (simp add: rederive_boundaries_def)


text \<open>
  C4, as amended: for any inputs with non-decreasing boundary sequences that span more
  than one value (\<open>align\<close> is called on two of them by \<open>join_indexed_dataframes\<close>),
  the boundaries read back from the alignment matrix for an input are the boundary
  sequence of that input after repartitioning: the common boundaries that lie within the
  input's range.  They contain every original boundary of the input, and they are the
  original boundary sequence when that sequence is strictly increasing and no boundary of
  another input falls inside the input's range without being one of its own.
\<close>

theorem align_rederive_boundaries:
  fixes dfs :: "'a::linorder dataframe list"
  assumes "\<forall>df\<in>set dfs. sorted (divisions df) \<and> divisions df \<noteq> []
             \<and> hd (divisions df) < last (divisions df)"
  shows "\<exists>dfs2 divs parts.
      align dfs = Inr (dfs2, divs, parts)
    \<and> (\<forall>k<length dfs.
          rederive_boundaries k divs parts = divisions (dfs2 ! k)
        \<and> rederive_boundaries k divs parts =
            filter (\<lambda>e. hd (divisions (dfs ! k)) \<le> e \<and> e \<le> last (divisions (dfs ! k))) divs
        \<and> set (divisions (dfs ! k)) \<subseteq> set (rederive_boundaries k divs parts)
        \<and> (distinct (divisions (dfs ! k))
             \<and> (\<forall>e\<in>set divs. hd (divisions (dfs ! k)) \<le> e \<and> e \<le> last (divisions (dfs ! k))
                    \<longrightarrow> e \<in> set (divisions (dfs ! k)))
            \<longrightarrow> rederive_boundaries k divs parts = divisions (dfs ! k)))"
proof -
  let ?divs = "unique (merge_sorted (map divisions dfs))"
  let ?dfs2 = "map (\<lambda>df. repartition df (bound ?divs (hd (divisions df)) (last (divisions df)))) dfs"
  let ?parts = "align_loop ?dfs2 (map (\<lambda>df. 0) dfs) (butlast ?divs)"
  have srt: "\<forall>df\<in>set dfs. sorted (divisions df)" using assms by simp
  note c = common_divisions[OF srt]
  have "[] \<notin> set (map divisions dfs)" using assms by auto
  then have al: "align dfs = Inr (?dfs2, ?divs, ?parts)" by (rule align_unfold)
  have each: "\<forall>k<length dfs.
          rederive_boundaries k ?divs ?parts = divisions (?dfs2 ! k)
        \<and> rederive_boundaries k ?divs ?parts =
            filter (\<lambda>e. hd (divisions (dfs ! k)) \<le> e \<and> e \<le> last (divisions (dfs ! k))) ?divs
        \<and> set (divisions (dfs ! k)) \<subseteq> set (rederive_boundaries k ?divs ?parts)
        \<and> (distinct (divisions (dfs ! k))
             \<and> (\<forall>e\<in>set ?divs. hd (divisions (dfs ! k)) \<le> e \<and> e \<le> last (divisions (dfs ! k))
                    \<longrightarrow> e \<in> set (divisions (dfs ! k)))
            \<longrightarrow> rederive_boundaries k ?divs ?parts = divisions (dfs ! k))"
  proof (intro allI impI)
    fix k assume k: "k < length dfs"
    let ?a = "divisions (dfs ! k)"
    let ?bnd = "bound ?divs (hd ?a) (last ?a)"
    let ?pre = "takeWhile (\<lambda>e. e < hd ?a) ?divs"
    let ?post = "dropWhile (\<lambda>e. e \<le> last ?a) ?divs"
    have mem: "dfs ! k \<in> set dfs" using k by simp
    then have a: "sorted ?a" "?a \<noteq> []" and lt: "hd ?a < last ?a" using assms by auto
    have sub: "set ?a \<subseteq> set ?divs" using mem c(3) by auto
    note s = own_slice[OF c(1) a sub]
    have d2: "divisions (?dfs2 ! k) = ?bnd" using k by (simp add: repartition_def)
    have "hd ?a \<in> set ?bnd" "last ?a \<in> set ?bnd" using a(2) s(3) by auto
    then have len: "2 \<le> length ?bnd" using lt by (intro two_elements_length[of "hd ?a" _ "last ?a"]) simp_all
    have "map (\<lambda>L. L ! k) ?parts = align_column (?dfs2 ! k) (map (\<lambda>df. 0) dfs ! k) (butlast ?divs)"
      using k by (intro align_loop_column) simp_all
    also have "map (\<lambda>df. 0) dfs ! k = (0::nat)" using k by simp
    also have "align_column (?dfs2 ! k) 0 (butlast ?divs) =
         replicate (length ?pre) None
         @ map (\<lambda>j. Some (df_name (?dfs2 ! k), j)) [0..<length (divisions (?dfs2 ! k)) - 1]
         @ replicate (length ?post) None"
      using c(1,2) a sub d2 by (rule align_column_own_slice)
    finally have col: "map (\<lambda>L. L ! k) ?parts =
         replicate (length ?pre) None
         @ map (\<lambda>j. Some (df_name (?dfs2 ! k), j)) [0..<length ?bnd - 1]
         @ replicate (length ?post) None"
      unfolding d2 .
    have "rederive_boundaries k (?pre @ ?bnd @ ?post) ?parts = ?bnd"
      using col len by (rule rederive_from_column)
    then have r: "rederive_boundaries k ?divs ?parts = ?bnd" using s(2) by simp
    have eq: "distinct ?a \<and> (\<forall>e\<in>set ?divs. hd ?a \<le> e \<and> e \<le> last ?a \<longrightarrow> e \<in> set ?a)
            \<longrightarrow> ?bnd = ?a"
    proof
      assume h: "distinct ?a \<and> (\<forall>e\<in>set ?divs. hd ?a \<le> e \<and> e \<le> last ?a \<longrightarrow> e \<in> set ?a)"
      have "set ?bnd = set ?a" using h s(3) by (auto simp: s(1))
      moreover have "sorted ?bnd" "distinct ?bnd" using c(1,2) by (simp_all add: s(1) sorted_wrt_filter)
      ultimately show "?bnd = ?a" using a(1) h by (metis sorted_distinct_set_unique)
    qed
    show "rederive_boundaries k ?divs ?parts = divisions (?dfs2 ! k)
        \<and> rederive_boundaries k ?divs ?parts = filter (\<lambda>e. hd ?a \<le> e \<and> e \<le> last ?a) ?divs
        \<and> set ?a \<subseteq> set (rederive_boundaries k ?divs ?parts)
        \<and> (distinct ?a \<and> (\<forall>e\<in>set ?divs. hd ?a \<le> e \<and> e \<le> last ?a \<longrightarrow> e \<in> set ?a)
            \<longrightarrow> rederive_boundaries k ?divs ?parts = ?a)"
      unfolding r using d2 s(1,3) eq by simp
  qed
  show ?thesis
    by (rule exI[of _ ?dfs2], rule exI[of _ ?divs], rule exI[of _ ?parts])
       (intro conjI al each)
qed


text \<open>
  The claim as stated fails: for the boundaries \<open>[1, 5]\<close> aligned with \<open>[3, 7]\<close> the
  matrix gives back \<open>[1, 3, 5]\<close>, not \<open>[1, 5]\<close>.
\<close>

theorem align_rederive_not_original:
  "\<exists>dfs2 divs parts.
      align [frame ''a'' [1, 5 :: int], frame ''b'' [3, 7 :: int]] = Inr (dfs2, divs, parts)
    \<and> rederive_boundaries 0 divs parts = [1, 3, 5]
    \<and> rederive_boundaries 0 divs parts \<noteq> divisions (frame ''a'' [1, 5 :: int])"
proof (intro exI conjI)
  show "align [frame ''a'' [1, 5 :: int], frame ''b'' [3, 7 :: int]] =
     Inr ([frame ''a'' [1, 3, 5], frame ''b'' [3, 5, 7]], [1, 3, 5, 7],
        [[Some (''a'', 0), None], [Some (''a'', 1), Some (''b'', 0)], [None, Some (''b'', 1)]])"
    by (rule example_overlap_align)
  show "rederive_boundaries 0 [1, 3, 5, 7 :: int]
     [[Some (''a'', 0), None], [Some (''a'', 1), Some (''b'', 0)], [None, Some (''b'', 1)]]
     = [1, 3, 5]"
    by (rule example_overlap_rederive)
  show "rederive_boundaries 0 [1, 3, 5, 7 :: int]
     [[Some (''a'', 0), None], [Some (''a'', 1), Some (''b'', 0)], [None, Some (''b'', 1)]]
     \<noteq> divisions (frame ''a'' [1, 5 :: int])"
    unfolding example_overlap_rederive by (simp add: frame_def)
qed

theorem align_rederive_boundaries_witness:
  "list_all (\<lambda>df. sorted (divisions df) \<and> divisions df \<noteq> [] \<and> hd (divisions df) < last (divisions df))
      [frame ''a'' [1, 5 :: int], frame ''b'' [3, 7 :: int]]
   \<and> (\<exists>dfs2 divs parts.
      align [frame ''a'' [1, 5 :: int], frame ''b'' [3, 7 :: int]] = Inr (dfs2, divs, parts)
    \<and> rederive_boundaries 0 divs parts = divisions (dfs2 ! 0)
    \<and> rederive_boundaries 0 divs parts = [1, 3, 5])"
proof -
  have h: "\<forall>df\<in>set [frame ''a'' [1, 5 :: int], frame ''b'' [3, 7 :: int]].
      sorted (divisions df) \<and> divisions df \<noteq> [] \<and> hd (divisions df) < last (divisions df)"
    by (simp add: frame_def)
  from align_rederive_boundaries[OF h] obtain dfs2 divs parts where
    al: "align [frame ''a'' [1, 5 :: int], frame ''b'' [3, 7 :: int]] = Inr (dfs2, divs, parts)"
    and r: "rederive_boundaries 0 divs parts = divisions (dfs2 ! 0)"
    by auto
  from al have "divs = [1, 3, 5, 7]"
    "parts = [[Some (''a'', 0), None], [Some (''a'', 1), Some (''b'', 0)], [None, Some (''b'', 1)]]"
    by (simp_all add: example_overlap_align)
  then have "rederive_boundaries 0 divs parts = [1, 3, 5]"
    by (simp only: example_overlap_rederive)
  with al r h show ?thesis by (simp add: list_all_iff)
qed

section \<open>Two inputs with disjoint ranges\<close>

lemma pair_rows_left:
  "map (\<lambda>(x, y). [x, y]) (zip (map f [0..<m]) (replicate m None)) = map (\<lambda>k. [f k, None]) [0..<m]"
  by (intro nth_equalityI) simp_all

lemma pair_rows_right:
  "map (\<lambda>(x, y). [x, y]) (zip (replicate n None) (map g [0..<n])) = map (\<lambda>k. [None, g k]) [0..<n]"
  by (intro nth_equalityI) simp_all

lemma pair_rows_gap_left_first:
  "map (\<lambda>(x, y). [x, y])
     (zip (map f [0..<m] @ replicate (Suc n) None) (replicate (Suc m) None @ map g [0..<n]))
   = map (\<lambda>k. [f k, None]) [0..<m] @ [[None, None]] @ map (\<lambda>k. [None, g k]) [0..<n]"
proof -
  have e: "replicate (Suc m) None @ map g [0..<n] = replicate m None @ (None # map g [0..<n])"
    by (simp add: replicate_app_Cons_same)
  have "zip (map f [0..<m] @ replicate (Suc n) None) (replicate (Suc m) None @ map g [0..<n])
      = zip (map f [0..<m] @ (None # replicate n None)) (replicate m None @ (None # map g [0..<n]))"
    unfolding e by simp
  also have "\<dots> = zip (map f [0..<m]) (replicate m None)
                 @ zip (None # replicate n None) (None # map g [0..<n])"
    by (rule zip_append) simp
  finally show ?thesis by (simp add: pair_rows_left pair_rows_right)
qed

lemma pair_rows_gap_right_first:
  "map (\<lambda>(x, y). [x, y])
     (zip (replicate (Suc n) None @ map f [0..<m]) (map g [0..<n] @ replicate (Suc m) None))
   = map (\<lambda>k. [None, g k]) [0..<n] @ [[None, None]] @ map (\<lambda>k. [f k, None]) [0..<m]"
proof -
  have e: "replicate (Suc n) None @ map f [0..<m] = replicate n None @ (None # map f [0..<m])"
    by (simp add: replicate_app_Cons_same)
  have "zip (replicate (Suc n) None @ map f [0..<m]) (map g [0..<n] @ replicate (Suc m) None)
      = zip (replicate n None @ (None # map f [0..<m])) (map g [0..<n] @ (None # replicate m None))"
    unfolding e by simp
  also have "\<dots> = zip (replicate n None) (map g [0..<n])
                 @ zip (None # map f [0..<m]) (None # replicate m None)"
    by (rule zip_append) simp
  finally show ?thesis by (simp add: pair_rows_left pair_rows_right)
qed

text \<open>Two inputs, the range of the first wholly below the range of the second.\<close>

lemma disjoint_common:
  fixes a b :: "'a::linorder list"
  assumes "sorted_wrt (<) a" "sorted_wrt (<) b" "a \<noteq> []" "b \<noteq> []" "last a < hd b"
  shows "sorted (a @ b)" "distinct (a @ b)"
    "filter (\<lambda>e. hd a \<le> e \<and> e \<le> last a) (a @ b) = a"
    "filter (\<lambda>e. hd b \<le> e \<and> e \<le> last b) (a @ b) = b"
proof -
  have sa: "sorted a" "distinct a" and sb: "sorted b" "distinct b"
    using assms(1,2) by (simp_all add: strict_sorted_iff)
  have lt: "\<forall>x\<in>set a. \<forall>y\<in>set b. x < y"
    using sorted_in_range[OF sa(1)] sorted_in_range[OF sb(1)] assms(5) by fastforce
  show "sorted (a @ b)" using sa sb lt by (auto simp: sorted_append intro: less_imp_le)
  show "distinct (a @ b)" using sa sb lt by auto
  have "filter (\<lambda>e. hd a \<le> e \<and> e \<le> last a) a = a"
    using sorted_in_range[OF sa(1)] by (simp add: filter_id_conv)
  moreover have "\<forall>y\<in>set b. \<not> y \<le> last a"
    using lt assms(3) last_in_set[of a] by fastforce
  then have "filter (\<lambda>e. hd a \<le> e \<and> e \<le> last a) b = []"
    by (simp add: filter_empty_conv)
  ultimately show "filter (\<lambda>e. hd a \<le> e \<and> e \<le> last a) (a @ b) = a" by simp
  have "filter (\<lambda>e. hd b \<le> e \<and> e \<le> last b) b = b"
    using sorted_in_range[OF sb(1)] by (simp add: filter_id_conv)
  moreover have "\<forall>x\<in>set a. \<not> hd b \<le> x"
    using lt assms(4) hd_in_set[of b] by fastforce
  then have "filter (\<lambda>e. hd b \<le> e \<and> e \<le> last b) a = []"
    by (simp add: filter_empty_conv)
  ultimately show "filter (\<lambda>e. hd b \<le> e \<and> e \<le> last b) (a @ b) = b" by simp
qed

lemma align_disjoint_left_first:
  fixes lhs rhs :: "'a::linorder dataframe"
  assumes "sorted_wrt (<) (divisions lhs)" "sorted_wrt (<) (divisions rhs)"
    "divisions lhs \<noteq> []" "divisions rhs \<noteq> []"
    "last (divisions lhs) < hd (divisions rhs)"
  shows "align [lhs, rhs] =
    Inr ([lhs, rhs], divisions lhs @ divisions rhs,
         map (\<lambda>k. [Some (df_name lhs, k), None]) [0..<length (divisions lhs) - 1]
         @ [[None, None]]
         @ map (\<lambda>k. [None, Some (df_name rhs, k)]) [0..<length (divisions rhs) - 1])"
proof -
  let ?a = "divisions lhs" and ?b = "divisions rhs"
  note d = disjoint_common[OF assms]
  have sa: "sorted ?a" and sb: "sorted ?b"
    using assms(1,2) by (simp_all add: strict_sorted_iff)
  have common: "unique (merge_sorted (map divisions [lhs, rhs])) = ?a @ ?b"
    by (rule common_divisions_eq) (use sa sb d in auto)
  have le: "hd ?a \<le> last ?a" "hd ?b \<le> last ?b"
    using sa sb assms(3,4) by (simp_all add: sorted_hd_le_last)
  have ba: "bound (?a @ ?b) (hd ?a) (last ?a) = ?a"
    using bound_sorted[OF d(1) le(1)] d(3) by simp
  have bb: "bound (?a @ ?b) (hd ?b) (last ?b) = ?b"
    using bound_sorted[OF d(1) le(2)] d(4) by simp
  have ca: "align_column lhs 0 (butlast (?a @ ?b)) =
      map (\<lambda>k. Some (df_name lhs, k)) [0..<length ?a - 1] @ replicate (length ?b) None"
    using align_column_slice[of lhs "[]" ?b] assms(3) d(2) by simp
  have cb: "align_column rhs 0 (butlast (?a @ ?b)) =
      replicate (length ?a) None @ map (\<lambda>k. Some (df_name rhs, k)) [0..<length ?b - 1]"
    using align_column_slice[of rhs ?a "[]"] assms(4) d(2) by simp
  have la: "length ?a = Suc (length ?a - 1)" and lb: "length ?b = Suc (length ?b - 1)"
    using assms(3,4) by simp_all
  have rows: "align_loop [lhs, rhs] [0, 0] (butlast (?a @ ?b)) =
         map (\<lambda>k. [Some (df_name lhs, k), None]) [0..<length ?a - 1]
         @ [[None, None]]
         @ map (\<lambda>k. [None, Some (df_name rhs, k)]) [0..<length ?b - 1]"
    unfolding align_loop_pair ca cb
    by (subst la, subst lb) (rule pair_rows_gap_left_first)
  have "[] \<notin> set (map divisions [lhs, rhs])" using assms(3,4) by auto
  from align_unfold[OF this] show ?thesis
    unfolding common by (simp add: ba bb repartition_def rows)
qed

lemma align_disjoint_right_first:
  fixes lhs rhs :: "'a::linorder dataframe"
  assumes "sorted_wrt (<) (divisions lhs)" "sorted_wrt (<) (divisions rhs)"
    "divisions lhs \<noteq> []" "divisions rhs \<noteq> []"
    "last (divisions rhs) < hd (divisions lhs)"
  shows "align [lhs, rhs] =
    Inr ([lhs, rhs], divisions rhs @ divisions lhs,
         map (\<lambda>k. [None, Some (df_name rhs, k)]) [0..<length (divisions rhs) - 1]
         @ [[None, None]]
         @ map (\<lambda>k. [Some (df_name lhs, k), None]) [0..<length (divisions lhs) - 1])"
proof -
  let ?a = "divisions lhs" and ?b = "divisions rhs"
  note d = disjoint_common[OF assms(2,1,4,3,5)]
  have sa: "sorted ?a" and sb: "sorted ?b"
    using assms(1,2) by (simp_all add: strict_sorted_iff)
  have common: "unique (merge_sorted (map divisions [lhs, rhs])) = ?b @ ?a"
    by (rule common_divisions_eq) (use sa sb d in auto)
  have le: "hd ?a \<le> last ?a" "hd ?b \<le> last ?b"
    using sa sb assms(3,4) by (simp_all add: sorted_hd_le_last)
  have ba: "bound (?b @ ?a) (hd ?a) (last ?a) = ?a"
    using bound_sorted[OF d(1) le(1)] d(4) by simp
  have bb: "bound (?b @ ?a) (hd ?b) (last ?b) = ?b"
    using bound_sorted[OF d(1) le(2)] d(3) by simp
  have ca: "align_column lhs 0 (butlast (?b @ ?a)) =
      replicate (length ?b) None @ map (\<lambda>k. Some (df_name lhs, k)) [0..<length ?a - 1]"
    using align_column_slice[of lhs ?b "[]"] assms(3) d(2) by simp
  have cb: "align_column rhs 0 (butlast (?b @ ?a)) =
      map (\<lambda>k. Some (df_name rhs, k)) [0..<length ?b - 1] @ replicate (length ?a) None"
    using align_column_slice[of rhs "[]" ?a] assms(4) d(2) by simp
  have la: "length ?a = Suc (length ?a - 1)" and lb: "length ?b = Suc (length ?b - 1)"
    using assms(3,4) by simp_all
  have rows: "align_loop [lhs, rhs] [0, 0] (butlast (?b @ ?a)) =
         map (\<lambda>k. [None, Some (df_name rhs, k)]) [0..<length ?b - 1]
         @ [[None, None]]
         @ map (\<lambda>k. [Some (df_name lhs, k), None]) [0..<length ?a - 1]"
    unfolding align_loop_pair ca cb
    by (subst la, subst lb) (rule pair_rows_gap_right_first)
  have "[] \<notin> set (map divisions [lhs, rhs])" using assms(3,4) by auto
  from align_unfold[OF this] show ?thesis
    unfolding common by (simp add: ba bb repartition_def rows)
qed

text \<open>The outer join keeps the matrix of \<open>align\<close>.\<close>

lemma join_outer_unfold:
  fixes lhs rhs :: "'a::linorder dataframe"
  assumes al: "align [lhs, rhs] = Inr ([lhs, rhs], divs, parts)"
    and w: "list_all (\<lambda>p. length p = 2) parts"
    and pd: "pd_join_columns (columns lhs) (columns rhs) ''outer'' lsuffix rsuffix = Inr cols"
  shows "\<exists>out. snd (join_indexed_dataframes pd_join_columns tok lhs rhs ''outer'' lsuffix rsuffix)
           = Inr out \<and> divisions out = divs"
  using w pd
  by (simp add: join_indexed_dataframes_def al required_def require_def join_dsk_def
      DataFrame_def Let_def)


lemma example_disjoint_align:
  "align [frame ''a'' [1, 2 :: int], frame ''b'' [3, 4 :: int]] =
   Inr ([frame ''a'' [1, 2], frame ''b'' [3, 4]], [1, 2, 3, 4],
        [[Some (''a'', 0), None], [None, None], [None, Some (''b'', 0)]])"
proof -
  have "unique (merge_sorted [[1, 2], [3, 4 :: int]]) = [1, 2, 3, 4]"
    by (simp add: merge_sorted_def unique_def)
  moreover have "bound [1, 2, 3, 4 :: int] 1 2 = [1, 2]" "bound [1, 2, 3, 4 :: int] 3 4 = [3, 4]"
    by (simp_all add: bound_def slice_def bisect_left_def bisect_right_def)
  ultimately show ?thesis
    by (simp add: align_def frame_def Let_def repartition_def align_row_def align_slot_def)
qed

text \<open>
  C2, as amended: for two indexed datasets with non-empty, strictly increasing boundary
  sequences and disjoint ranges, \<open>join_indexed_dataframes\<close> with \<open>how='outer'\<close> produces
  a result whose partition count (the number of alignment rows, \<open>len(divisions) - 1\<close>)
  is the sum of the two inputs' partition counts plus one.  The alignment rows are the
  partitions of the lower input, each paired with an absent slot for the other, then one
  row for the gap between the two ranges in which both slots are absent, then the
  partitions of the upper input, each paired with an absent slot.  The result exists
  whenever the table library's column inference succeeds.
\<close>

theorem outer_join_disjoint_ranges:
  fixes lhs rhs :: "'a::linorder dataframe"
  assumes "sorted_wrt (<) (divisions lhs)" "sorted_wrt (<) (divisions rhs)"
    and "divisions lhs \<noteq> []" "divisions rhs \<noteq> []"
    and "last (divisions lhs) < hd (divisions rhs) \<or> last (divisions rhs) < hd (divisions lhs)"
    and "pd_join_columns (columns lhs) (columns rhs) ''outer'' lsuffix rsuffix = Inr cols"
  shows "\<exists>out dfs2 divs parts.
      snd (join_indexed_dataframes pd_join_columns tok lhs rhs ''outer'' lsuffix rsuffix) = Inr out
    \<and> align [lhs, rhs] = Inr (dfs2, divs, parts)
    \<and> divisions out = divs
    \<and> int (length parts) = npartitions out
    \<and> npartitions out = npartitions lhs + npartitions rhs + 1
    \<and> (last (divisions lhs) < hd (divisions rhs) \<longrightarrow>
         parts = map (\<lambda>k. [Some (df_name lhs, k), None]) [0..<length (divisions lhs) - 1]
                 @ [[None, None]]
                 @ map (\<lambda>k. [None, Some (df_name rhs, k)]) [0..<length (divisions rhs) - 1])
    \<and> (last (divisions rhs) < hd (divisions lhs) \<longrightarrow>
         parts = map (\<lambda>k. [None, Some (df_name rhs, k)]) [0..<length (divisions rhs) - 1]
                 @ [[None, None]]
                 @ map (\<lambda>k. [Some (df_name lhs, k), None]) [0..<length (divisions lhs) - 1])"
proof -
  let ?a = "divisions lhs" and ?b = "divisions rhs"
  let ?rows_l = "map (\<lambda>k. [Some (df_name lhs, k), None]) [0..<length ?a - 1]"
  let ?rows_r = "map (\<lambda>k. [None, Some (df_name rhs, k)]) [0..<length ?b - 1]"
  have sa: "sorted ?a" and sb: "sorted ?b"
    using assms(1,2) by (simp_all add: strict_sorted_iff)
  have le: "hd ?a \<le> last ?a" "hd ?b \<le> last ?b"
    using sa sb assms(3,4) by (simp_all add: sorted_hd_le_last)
  from assms(5) show ?thesis
  proof
    assume lt: "last ?a < hd ?b"
    then have nlt: "\<not> last ?b < hd ?a" using le by auto
    let ?parts = "?rows_l @ [[None, None]] @ ?rows_r"
    have al: "align [lhs, rhs] = Inr ([lhs, rhs], ?a @ ?b, ?parts)"
      using assms(1-4) lt by (rule align_disjoint_left_first)
    have w: "list_all (\<lambda>p. length p = 2) ?parts" by (auto simp: list_all_iff)
    from join_outer_unfold[where pd_join_columns=pd_join_columns and tok=tok, OF al w assms(6)] obtain out where
      out: "snd (join_indexed_dataframes pd_join_columns tok lhs rhs ''outer'' lsuffix rsuffix) = Inr out"
        "divisions out = ?a @ ?b" by blast
    have n: "int (length ?parts) = npartitions out"
      "npartitions out = npartitions lhs + npartitions rhs + 1"
      using assms(3,4) out(2) by (simp_all add: npartitions_def Suc_leI of_nat_diff)
    show ?thesis
      by (rule exI[of _ out], rule exI[of _ "[lhs, rhs]"], rule exI[of _ "?a @ ?b"],
          rule exI[of _ ?parts]) (use out al n lt nlt in simp)
  next
    assume lt: "last ?b < hd ?a"
    then have nlt: "\<not> last ?a < hd ?b" using le by auto
    let ?parts = "?rows_r @ [[None, None]] @ ?rows_l"
    have al: "align [lhs, rhs] = Inr ([lhs, rhs], ?b @ ?a, ?parts)"
      using assms(1-4) lt by (rule align_disjoint_right_first)
    have w: "list_all (\<lambda>p. length p = 2) ?parts" by (auto simp: list_all_iff)
    from join_outer_unfold[where pd_join_columns=pd_join_columns and tok=tok, OF al w assms(6)] obtain out where
      out: "snd (join_indexed_dataframes pd_join_columns tok lhs rhs ''outer'' lsuffix rsuffix) = Inr out"
        "divisions out = ?b @ ?a" by blast
    have n: "int (length ?parts) = npartitions out"
      "npartitions out = npartitions lhs + npartitions rhs + 1"
      using assms(3,4) out(2) by (simp_all add: npartitions_def Suc_leI of_nat_diff)
    show ?thesis
      by (rule exI[of _ out], rule exI[of _ "[lhs, rhs]"], rule exI[of _ "?b @ ?a"],
          rule exI[of _ ?parts]) (use out al n lt nlt in simp)
  qed
qed

text \<open>
  The claim as stated fails: for the boundaries \<open>[1, 2]\<close> and \<open>[3, 4]\<close> the result has
  three partitions, not two, and the second alignment row has both slots absent.
\<close>

theorem outer_join_disjoint_count:
  "\<exists>out dfs2 divs parts.
      snd (join_indexed_dataframes (\<lambda>l r h ls rs. Inr (l @ r)) ''-1''
        (frame ''a'' [1, 2 :: int]) (frame ''b'' [3, 4 :: int]) ''outer'' '''' '''') = Inr out
    \<and> align [frame ''a'' [1, 2 :: int], frame ''b'' [3, 4 :: int]] = Inr (dfs2, divs, parts)
    \<and> npartitions out = 3
    \<and> npartitions out \<noteq> npartitions (frame ''a'' [1, 2 :: int]) + npartitions (frame ''b'' [3, 4 :: int])
    \<and> parts ! 1 = [None, None]"
  unfolding join_indexed_dataframes_def example_disjoint_align
  by (simp add: required_def require_def join_dsk_def DataFrame_def Let_def npartitions_def
      frame_def)

theorem outer_join_disjoint_ranges_witness:
  "sorted_wrt (<) (divisions (frame ''a'' [1, 2 :: int]))
   \<and> sorted_wrt (<) (divisions (frame ''b'' [3, 4 :: int]))
   \<and> divisions (frame ''a'' [1, 2 :: int]) \<noteq> []
   \<and> divisions (frame ''b'' [3, 4 :: int]) \<noteq> []
   \<and> last (divisions (frame ''a'' [1, 2 :: int])) < hd (divisions (frame ''b'' [3, 4 :: int]))
   \<and> (\<exists>out dfs2 divs parts.
        snd (join_indexed_dataframes (\<lambda>l r h ls rs. Inr (l @ r)) ''-1''
          (frame ''a'' [1, 2 :: int]) (frame ''b'' [3, 4 :: int]) ''outer'' '''' '''') = Inr out
      \<and> align [frame ''a'' [1, 2 :: int], frame ''b'' [3, 4 :: int]] = Inr (dfs2, divs, parts)
      \<and> npartitions out = 3
      \<and> parts = [[Some (''a'', 0), None], [None, None], [None, Some (''b'', 0)]])"
proof -
  have h: "sorted_wrt (<) (divisions (frame ''a'' [1, 2 :: int]))"
    "sorted_wrt (<) (divisions (frame ''b'' [3, 4 :: int]))"
    "divisions (frame ''a'' [1, 2 :: int]) \<noteq> []"
    "divisions (frame ''b'' [3, 4 :: int]) \<noteq> []"
    and lt: "last (divisions (frame ''a'' [1, 2 :: int])) < hd (divisions (frame ''b'' [3, 4 :: int]))"
    by (simp_all add: frame_def)
  have pd: "(\<lambda>l r h ls rs. Inr (l @ r)) (columns (frame ''a'' [1, 2 :: int]))
      (columns (frame ''b'' [3, 4 :: int])) ''outer'' '''' '''' = (Inr [''a'', ''b''] :: error + string list)"
    by (simp add: frame_def)
  from outer_join_disjoint_ranges[where pd_join_columns="\<lambda>l r h ls rs. Inr (l @ r)" and tok="''-1''",
      OF h disjI1[OF lt] pd]
  obtain out dfs2 divs parts where
    o: "snd (join_indexed_dataframes (\<lambda>l r h ls rs. Inr (l @ r)) ''-1''
          (frame ''a'' [1, 2 :: int]) (frame ''b'' [3, 4 :: int]) ''outer'' '''' '''') = Inr out"
    and al: "align [frame ''a'' [1, 2 :: int], frame ''b'' [3, 4 :: int]] = Inr (dfs2, divs, parts)"
    and n: "npartitions out = npartitions (frame ''a'' [1, 2 :: int]) + npartitions (frame ''b'' [3, 4 :: int]) + 1"
    by blast
  from n have "npartitions out = 3" by (simp add: npartitions_def frame_def)
  moreover from al have "parts = [[Some (''a'', 0), None], [None, None], [None, Some (''b'', 0)]]"
    by (simp add: example_disjoint_align)
  ultimately show ?thesis using h lt o al by blast
qed

section \<open>The task recorded for a row without any partition\<close>

text \<open>
  C3 says that in \<open>join_indexed_dataframes\<close> the final branch of the conditional, which
  records the descriptor \<open>None\<close>, is never taken for a row that survives \<open>align\<close> and
  \<open>require\<close>, for any join kind and any pair of inputs.  On the inputs with boundaries
  \<open>[1, 2]\<close> and \<open>[3, 4]\<close> and \<open>how='outer'\<close> it is taken: the row of the gap between
  the two ranges has both slots absent, no branch applies to it, and the graph of the
  result binds the key of partition 1 to \<open>None\<close>.
\<close>

theorem outer_join_gap_row_none_task:
  "\<exists>out.
      join_indexed_dataframes (\<lambda>l r h ls rs. Inr (l @ r)) ''-1''
        (frame ''a'' [1, 2 :: int]) (frame ''b'' [3, 4 :: int]) ''outer'' '''' ''''
      = ([AlignCalled, RequireCalled], Inr out)
    \<and> divisions out = [1, 2, 3, 4]
    \<and> dask out (''join-indexed-1'', 0) = Some (Some (Join (Part (''a'', 0)) (Empty [''b'']) ''outer'' '''' ''''))
    \<and> dask out (''join-indexed-1'', 1) = Some None
    \<and> dask out (''join-indexed-1'', 2) = Some (Some (Join (Empty [''a'']) (Part (''b'', 0)) ''outer'' '''' ''''))"
  unfolding join_indexed_dataframes_def example_disjoint_align
  by (simp add: required_def require_def join_dsk_def join_task_def DataFrame_def Let_def
      frame_def merge_def dict_def)

section \<open>\<open>require\<close> when a required slot is nowhere present\<close>

lemma example_disjoint_require_inner:
  "require [1, 2, 3, 4 :: int] [[Some (''a'', 0), None], [None, None], [None, Some (''b'', 0)]]
     (Some [0, 1]) = Inl ValueError"
  by (simp add: require_def require_step_def slice_def)

text \<open>
  C1 says that \<open>require\<close> returns an empty result, without raising, when a required
  slot has no present row within the range left by the earlier narrowing steps.  On the
  alignment of the boundaries \<open>[1, 2]\<close> and \<open>[3, 4]\<close> with \<open>required=[0, 1]\<close>, after
  narrowing to the rows of slot 0 no row has slot 1 present, and \<open>min(present)\<close> raises
  \<open>ValueError\<close>; the inner join of the two datasets raises it likewise.
\<close>

theorem require_no_present_row_raises:
  "require [1, 2, 3, 4 :: int] [[Some (''a'', 0), None], [None, None], [None, Some (''b'', 0)]]
     (Some [0, 1]) = Inl ValueError
   \<and> join_indexed_dataframes (\<lambda>l r h ls rs. Inr (l @ r)) ''-1''
        (frame ''a'' [1, 2 :: int]) (frame ''b'' [3, 4 :: int]) ''inner'' '''' ''''
      = ([AlignCalled, RequireCalled], Inl ValueError)"
  unfolding join_indexed_dataframes_def example_disjoint_align
  using example_disjoint_require_inner by (simp add: required_def)

section \<open>Rejection of an unsupported join kind\<close>

text \<open>
  C5 says that an indexed-join or indexed-concat builder called with an unsupported join
  kind fails before any alignment work.  \<open>concat_indexed_dataframes\<close> does: its assertion
  comes first, also for inputs on which \<open>align\<close> would raise.  \<open>join_indexed_dataframes\<close>
  fails only at the lookup \<open>required[how]\<close>, after \<open>align\<close> has run; when \<open>align\<close> itself
  raises, its exception is the one that reaches the caller.
\<close>

theorem join_kind_rejected_after_align:
  "join_indexed_dataframes (\<lambda>l r h ls rs. Inr (l @ r)) ''-1''
        (frame ''a'' [1, 2 :: int]) (frame ''b'' [3, 4 :: int]) ''bogus'' '''' ''''
     = ([AlignCalled], Inl KeyError)
   \<and> join_indexed_dataframes (\<lambda>l r h ls rs. Inr (l @ r)) ''-1''
        (frame ''a'' ([] :: int list)) (frame ''b'' [3, 4 :: int]) ''bogus'' '''' ''''
     = ([AlignCalled], Inl IndexError)
   \<and> concat_indexed_dataframes (\<lambda>cs j. Inr (concat cs)) ''-1''
        [frame ''a'' [1, 2 :: int], frame ''b'' [3, 4 :: int]] ''bogus''
     = ([], Inl AssertionError)
   \<and> concat_indexed_dataframes (\<lambda>cs j. Inr (concat cs)) ''-1''
        [frame ''a'' ([] :: int list), frame ''b'' [3, 4 :: int]] ''bogus''
     = ([], Inl AssertionError)"
  unfolding join_indexed_dataframes_def concat_indexed_dataframes_def example_disjoint_align
  by (simp add: required_def) (simp add: align_def frame_def)

section \<open>\<open>require\<close> with both slots required\<close>

lemma fold_min_least: "\<forall>y\<in>set xs. (x::nat) \<le> y \<Longrightarrow> fold min xs x = x"
  by (induction xs) (simp_all add: min_absorb2)

lemma fold_max_upt: "l \<le> h \<Longrightarrow> fold max [Suc l..<Suc h] l = h"
proof (induction h)
  case 0
  then show ?case by simp
next
  case (Suc h)
  show ?case
  proof (cases "l = Suc h")
    case True
    then show ?thesis by simp
  next
    case False
    with Suc.prems have "l \<le> h" by simp
    with Suc.IH show ?thesis by simp
  qed
qed

lemma py_min_upt: "l \<le> h \<Longrightarrow> py_min [l..<Suc h] = Inr l"
  by (simp add: upt_conv_Cons fold_min_least del: upt_Suc)

lemma py_max_upt: "l \<le> h \<Longrightarrow> py_max [l..<Suc h] = Inr h"
  by (simp add: upt_conv_Cons fold_max_upt del: upt_Suc)

lemma filter_range_upt:
  assumes "h < n"
  shows "filter (\<lambda>j. l \<le> j \<and> j \<le> h) [0..<n] = [l..<Suc h]"
proof (rule sorted_distinct_set_unique)
  show "sorted (filter (\<lambda>j. l \<le> j \<and> j \<le> h) [0..<n])" by (simp add: sorted_wrt_filter)
  show "distinct (filter (\<lambda>j. l \<le> j \<and> j \<le> h) [0..<n])" by simp
  show "sorted [l..<Suc h]" by (rule sorted_upt)
  show "distinct [l..<Suc h]" by (rule distinct_upt)
  show "set (filter (\<lambda>j. l \<le> j \<and> j \<le> h) [0..<n]) = set [l..<Suc h]"
    using assms by auto
qed

lemma length_slice: "length (slice xs lo hi) = min hi (length xs) - lo"
  by (simp add: slice_def min.commute)

lemma nth_slice: "lo + j < min hi (length xs) \<Longrightarrow> slice xs lo hi ! j = xs ! (lo + j)"
  by (simp add: slice_def)

lemma slice_slice: "slice (slice xs a b) c d = slice xs (a + c) (min b (a + d))"
  by (simp add: slice_def take_drop add.commute min.commute)

lemma set_slice_subset: "set (slice xs lo hi) \<subseteq> set xs"
  unfolding slice_def by (meson set_drop_subset set_take_subset subset_trans)

text \<open>One narrowing step on a slot that is present on the rows \<open>l..h\<close> exactly.\<close>

lemma require_step_contiguous:
  assumes w: "\<forall>p\<in>set parts. i < length p"
    and c: "\<forall>j<length parts. (parts ! j ! i \<noteq> None) = (l \<le> j \<and> j \<le> h)"
    and lh: "l \<le> h" "h < length parts"
  shows "require_step i (divs, parts) = Inr (slice divs l (h + 2), slice parts l (h + 1))"
proof -
  have "filter (\<lambda>j. parts ! j ! i \<noteq> None) [0..<length parts]
      = filter (\<lambda>j. l \<le> j \<and> j \<le> h) [0..<length parts]"
    using c by (intro filter_cong) simp_all
  also have "\<dots> = [l..<Suc h]" using lh(2) by (rule filter_range_upt)
  finally have pres: "filter (\<lambda>j. parts ! j ! i \<noteq> None) [0..<length parts] = [l..<Suc h]" .
  have nw: "\<not> list_ex (\<lambda>p. length p \<le> i) parts" using w by (auto simp: list_ex_iff)
  show ?thesis
    by (simp only: require_step_def Let_def snd_conv fst_conv pres nw if_False
        py_min_upt[OF lh(1)] py_max_upt[OF lh(1)] sum.case)
qed

lemma require_step_absent:
  assumes w: "\<forall>p\<in>set parts. i < length p"
    and c: "\<forall>j<length parts. parts ! j ! i = None"
  shows "require_step i (divs, parts) = Inl ValueError"
proof -
  have pres: "filter (\<lambda>j. parts ! j ! i \<noteq> None) [0..<length parts] = []"
    using c by (simp add: filter_empty_conv)
  have nw: "\<not> list_ex (\<lambda>p. length p \<le> i) parts" using w by (auto simp: list_ex_iff)
  show ?thesis
    by (simp only: require_step_def Let_def snd_conv fst_conv pres nw if_False
        py_min.simps sum.case)
qed

text \<open>
  Both slots required, each present on a run of rows: the two narrowing steps together
  cut the matrix to the intersection of the two runs, and raise when it is empty.
\<close>

lemma require_inner_contiguous:
  fixes divs :: "'a list"
  assumes w: "\<forall>p\<in>set parts. 2 \<le> length p"
    and c0: "\<forall>j<length parts. (parts ! j ! 0 \<noteq> None) = (l0 \<le> j \<and> j \<le> h0)"
    and r0: "l0 \<le> h0" "h0 < length parts"
    and c1: "\<forall>j<length parts. (parts ! j ! 1 \<noteq> None) = (l1 \<le> j \<and> j \<le> h1)"
    and r1: "l1 \<le> h1" "h1 < length parts"
  shows "require divs parts (Some [0, 1]) =
    (if max l0 l1 \<le> min h0 h1
     then Inr (slice divs (max l0 l1) (min h0 h1 + 2), slice parts (max l0 l1) (min h0 h1 + 1))
     else Inl ValueError)"
proof -
  let ?parts' = "slice parts l0 (h0 + 1)" and ?divs' = "slice divs l0 (h0 + 2)"
  have w0: "\<forall>p\<in>set parts. 0 < length p" and w1: "\<forall>p\<in>set parts. 1 < length p"
    using w by auto
  have s0: "require_step 0 (divs, parts) = Inr (?divs', ?parts')"
    using w0 c0 r0 by (rule require_step_contiguous)
  have len': "length ?parts' = Suc h0 - l0" using r0 by (simp add: length_slice)
  have nth': "\<And>j. j < Suc h0 - l0 \<Longrightarrow> ?parts' ! j = parts ! (l0 + j)"
    using r0 by (intro nth_slice) simp
  have w1': "\<forall>p\<in>set ?parts'. 1 < length p"
    using w1 set_slice_subset[of parts l0 "h0 + 1"] by blast
  have pres': "\<And>j. j < Suc h0 - l0 \<Longrightarrow> (?parts' ! j ! 1 \<noteq> None) = (l1 \<le> l0 + j \<and> l0 + j \<le> h1)"
  proof -
    fix j assume j: "j < Suc h0 - l0"
    then have "l0 + j < length parts" using r0 by simp
    with c1 have "(parts ! (l0 + j) ! 1 \<noteq> None) = (l1 \<le> l0 + j \<and> l0 + j \<le> h1)" by blast
    with nth'[OF j] show "(?parts' ! j ! 1 \<noteq> None) = (l1 \<le> l0 + j \<and> l0 + j \<le> h1)" by simp
  qed
  have unfold: "require divs parts (Some [0, 1]) = require_step 1 (?divs', ?parts')"
    by (simp add: require_def s0 split: sum.split)
  show ?thesis
  proof (cases "max l0 l1 \<le> min h0 h1")
    case True
    let ?l = "max l0 l1 - l0" and ?h = "min h0 h1 - l0"
    have c': "\<forall>j<length ?parts'. (?parts' ! j ! 1 \<noteq> None) = (?l \<le> j \<and> j \<le> ?h)"
    proof (intro allI impI)
      fix j assume "j < length ?parts'"
      then have j: "j < Suc h0 - l0" using len' by simp
      have "(l1 \<le> l0 + j \<and> l0 + j \<le> h1) = (?l \<le> j \<and> j \<le> ?h)"
        using True j by auto
      with pres'[OF j] show "(?parts' ! j ! 1 \<noteq> None) = (?l \<le> j \<and> j \<le> ?h)" by simp
    qed
    have lh: "?l \<le> ?h" "?h < length ?parts'" using True r0 len' by auto
    have "require_step 1 (?divs', ?parts') = Inr (slice ?divs' ?l (?h + 2), slice ?parts' ?l (?h + 1))"
      using w1' c' lh by (rule require_step_contiguous)
    moreover have "l0 + ?l = max l0 l1" by simp
    moreover have "min (h0 + 1) (l0 + (?h + 1)) = min h0 h1 + 1"
      "min (h0 + 2) (l0 + (?h + 2)) = min h0 h1 + 2"
      using True by auto
    ultimately show ?thesis using True unfold by (simp only: slice_slice if_True)
  next
    case False
    have "\<forall>j<length ?parts'. ?parts' ! j ! 1 = None"
    proof (intro allI impI)
      fix j assume "j < length ?parts'"
      then have j: "j < Suc h0 - l0" using len' by simp
      have "\<not> (l1 \<le> l0 + j \<and> l0 + j \<le> h1)" using False j by auto
      with pres'[OF j] show "?parts' ! j ! 1 = None" by blast
    qed
    with w1' have "require_step 1 (?divs', ?parts') = Inl ValueError"
      by (rule require_step_absent)
    with False unfold show ?thesis by simp
  qed
qed

lemma example_non_contiguous:
  "require [1, 2, 3, 4 :: int]
     [[Some (''a'', 0), None], [None, Some (''b'', 0)], [Some (''a'', 1), Some (''b'', 1)]]
     (Some [0, 1])
   = Inr ([2, 3, 4], [[None, Some (''b'', 0)], [Some (''a'', 1), Some (''b'', 1)]])"
  by (simp add: require_def require_step_def slice_def)


lemma example_docstring_inner:
  "require [1, 3, 5, 7, 9 :: int]
     [[Some (''a'', 0), None], [Some (''a'', 1), Some (''b'', 0)],
      [Some (''a'', 2), Some (''b'', 1)], [None, Some (''b'', 2)]]
     (Some [0, 1])
   = Inr ([3, 5, 7], [[Some (''a'', 1), Some (''b'', 0)], [Some (''a'', 2), Some (''b'', 1)]])"
  by (simp add: require_def require_step_def slice_def)


text \<open>
  In a matrix built by \<open>align\<close> from sorted inputs, every slot is present on one run
  of rows.
\<close>

lemma column_presence_run:
  assumes col: "map (\<lambda>L. L ! k) parts =
             replicate p None @ map (\<lambda>j. Some (f j)) [0..<m] @ replicate q None"
    and j: "j < length parts"
  shows "(parts ! j ! k \<noteq> None) = (p \<le> j \<and> j < p + m)"
proof -
  let ?col = "replicate p None @ map (\<lambda>j. Some (f j)) [0..<m] @ replicate q None"
  have len: "length parts = p + m + q" using arg_cong[OF col, of length] by simp
  have "parts ! j ! k = map (\<lambda>L. L ! k) parts ! j" using j by simp
  then have e: "parts ! j ! k = ?col ! j" unfolding col .
  consider "j < p" | "p \<le> j" "j < p + m" | "p + m \<le> j" by linarith
  then show ?thesis
  proof cases
    case 1
    then show ?thesis unfolding e by (simp add: nth_append)
  next
    case 2
    then have "j - p < m" by simp
    with 2 show ?thesis unfolding e by (simp add: nth_append)
  next
    case 3
    then have "\<not> j < p" "\<not> j - p < m" "j - p - m < q" using j len by simp_all
    then show ?thesis unfolding e using 3 by (simp add: nth_append)
  qed
qed

lemma align_presence_contiguous:
  fixes dfs :: "'a::linorder dataframe list"
  assumes ok: "\<forall>df\<in>set dfs. sorted (divisions df) \<and> divisions df \<noteq> []
             \<and> hd (divisions df) < last (divisions df)"
    and al: "align dfs = Inr (dfs2, divs, parts)"
    and k: "k < length dfs"
  shows "\<exists>l h. l \<le> h \<and> h < length parts
           \<and> (\<forall>j<length parts. (parts ! j ! k \<noteq> None) = (l \<le> j \<and> j \<le> h))"
proof -
  let ?divs = "unique (merge_sorted (map divisions dfs))"
  let ?dfs2 = "map (\<lambda>df. repartition df (bound ?divs (hd (divisions df)) (last (divisions df)))) dfs"
  let ?parts = "align_loop ?dfs2 (map (\<lambda>df. 0) dfs) (butlast ?divs)"
  let ?a = "divisions (dfs ! k)"
  let ?bnd = "bound ?divs (hd ?a) (last ?a)"
  let ?pre = "takeWhile (\<lambda>e. e < hd ?a) ?divs"
  let ?post = "dropWhile (\<lambda>e. e \<le> last ?a) ?divs"
  have srt: "\<forall>df\<in>set dfs. sorted (divisions df)" using ok by simp
  note c = common_divisions[OF srt]
  have "[] \<notin> set (map divisions dfs)" using ok by auto
  from align_unfold[OF this] al have p: "parts = ?parts" by simp
  have mem: "dfs ! k \<in> set dfs" using k by simp
  then have a: "sorted ?a" "?a \<noteq> []" and lt: "hd ?a < last ?a" using ok by auto
  have sub: "set ?a \<subseteq> set ?divs" using mem c(3) by auto
  note s = own_slice[OF c(1) a sub]
  have d2: "divisions (?dfs2 ! k) = ?bnd" using k by (simp add: repartition_def)
  have "hd ?a \<in> set ?bnd" "last ?a \<in> set ?bnd" using a(2) s(3) by auto
  then have len: "2 \<le> length ?bnd"
    using lt by (intro two_elements_length[of "hd ?a" _ "last ?a"]) simp_all
  have "map (\<lambda>L. L ! k) ?parts = align_column (?dfs2 ! k) (map (\<lambda>df. 0) dfs ! k) (butlast ?divs)"
    using k by (intro align_loop_column) simp_all
  also have "map (\<lambda>df. 0) dfs ! k = (0::nat)" using k by simp
  also have "align_column (?dfs2 ! k) 0 (butlast ?divs) =
       replicate (length ?pre) None
       @ map (\<lambda>j. Some (df_name (?dfs2 ! k), j)) [0..<length (divisions (?dfs2 ! k)) - 1]
       @ replicate (length ?post) None"
    using c(1,2) a sub d2 by (rule align_column_own_slice)
  finally have col: "map (\<lambda>L. L ! k) parts =
       replicate (length ?pre) None
       @ map (\<lambda>j. Some (df_name (?dfs2 ! k), j)) [0..<length ?bnd - 1]
       @ replicate (length ?post) None"
    unfolding d2 p .
  let ?l = "length ?pre" and ?m = "length ?bnd - 1"
  have plen: "length parts = ?l + ?m + length ?post"
    using arg_cong[OF col, of length] by simp
  have run: "\<forall>j<length parts. (parts ! j ! k \<noteq> None) = (?l \<le> j \<and> j \<le> ?l + ?m - 1)"
  proof (intro allI impI)
    fix j assume "j < length parts"
    from column_presence_run[OF col this] len
    show "(parts ! j ! k \<noteq> None) = (?l \<le> j \<and> j \<le> ?l + ?m - 1)" by auto
  qed
  have "?l \<le> ?l + ?m - 1" "?l + ?m - 1 < length parts" using len plen by simp_all
  with run show ?thesis by blast
qed

text \<open>
  C6, as amended: for every boundary sequence and alignment matrix with
  \<open>len(divisions) = len(parts) + 1\<close>, rows of at least two slots, and each of slot 0
  and slot 1 present on a contiguous run of rows (rows \<open>l0..h0\<close> and \<open>l1..h1\<close>, as in
  every matrix built by \<open>align\<close>), if \<open>require\<close> with \<open>required=[0,1]\<close> succeeds then no
  row of the returned matrix has slot 0 or slot 1 absent, the returned boundary sequence
  is one longer than the returned matrix, and the surviving rows are those of the
  intersection of the two presence ranges, \<open>max l0 l1 .. min h0 h1\<close>, which is not empty.
\<close>

theorem require_inner_both_present:
  fixes divs :: "'a list"
  assumes len: "length divs = length parts + 1"
    and w: "\<forall>p\<in>set parts. 2 \<le> length p"
    and c0: "\<forall>j<length parts. (parts ! j ! 0 \<noteq> None) = (l0 \<le> j \<and> j \<le> h0)"
    and r0: "l0 \<le> h0" "h0 < length parts"
    and c1: "\<forall>j<length parts. (parts ! j ! 1 \<noteq> None) = (l1 \<le> j \<and> j \<le> h1)"
    and r1: "l1 \<le> h1" "h1 < length parts"
    and ok: "require divs parts (Some [0, 1]) = Inr (divs2, parts2)"
  shows "(\<forall>p\<in>set parts2. p ! 0 \<noteq> None \<and> p ! 1 \<noteq> None)
    \<and> length divs2 = length parts2 + 1
    \<and> max l0 l1 \<le> min h0 h1
    \<and> parts2 = slice parts (max l0 l1) (min h0 h1 + 1)
    \<and> divs2 = slice divs (max l0 l1) (min h0 h1 + 2)"
proof -
  let ?L = "max l0 l1" and ?H = "min h0 h1"
  note r = require_inner_contiguous[OF w c0 r0 c1 r1, of divs]
  from ok r have LH: "?L \<le> ?H" by (auto split: if_splits)
  with ok r have p2: "parts2 = slice parts ?L (?H + 1)" and d2: "divs2 = slice divs ?L (?H + 2)"
    by simp_all
  have H: "?H < length parts" using r0 by simp
  have rows: "\<forall>p\<in>set parts2. p ! 0 \<noteq> None \<and> p ! 1 \<noteq> None"
  proof
    fix p assume "p \<in> set parts2"
    then obtain j where j: "j < length parts2" and p: "p = parts2 ! j"
      by (auto simp: in_set_conv_nth)
    from j have j': "?L + j < ?H + 1" using H by (simp add: p2 length_slice)
    then have "p = parts ! (?L + j)" unfolding p p2 using H by (intro nth_slice) simp
    moreover have "?L + j < length parts" using j' H by simp
    moreover have "l0 \<le> ?L + j" "?L + j \<le> h0" "l1 \<le> ?L + j" "?L + j \<le> h1"
      using j' by auto
    ultimately show "p ! 0 \<noteq> None \<and> p ! 1 \<noteq> None" using c0 c1 by blast
  qed
  have "min (?H + 2) (length divs) = ?H + 2" "min (?H + 1) (length parts) = ?H + 1"
    using H len by simp_all
  moreover have "\<And>L H :: nat. L \<le> H \<Longrightarrow> H + 2 - L = H + 1 - L + 1" by simp
  from this[OF LH] have "?H + 2 - ?L = ?H + 1 - ?L + 1" .
  ultimately have lens: "length divs2 = length parts2 + 1"
    unfolding p2 d2 length_slice by simp
  show ?thesis by (intro conjI rows lens LH p2 d2)
qed


text \<open>
  The claim as stated, for every matrix, fails: when slot 0 is present on rows 0 and 2
  but not on row 1, narrowing to the rows 1 to 2 of slot 1 keeps a row without slot 0.
\<close>

theorem require_inner_absent_slot:
  "\<exists>divs2 parts2.
     require [1, 2, 3, 4 :: int]
       [[Some (''a'', 0), None], [None, Some (''b'', 0)], [Some (''a'', 1), Some (''b'', 1)]]
       (Some [0, 1]) = Inr (divs2, parts2)
   \<and> parts2 ! 0 ! 0 = None"
  unfolding example_non_contiguous by simp


theorem require_inner_both_present_witness:
  "length [1, 3, 5, 7, 9 :: int] = length
     [[Some (''a'', 0 :: nat), None], [Some (''a'', 1), Some (''b'', 0)],
      [Some (''a'', 2), Some (''b'', 1)], [None, Some (''b'', 2)]] + 1
   \<and> require [1, 3, 5, 7, 9 :: int]
     [[Some (''a'', 0), None], [Some (''a'', 1), Some (''b'', 0)],
      [Some (''a'', 2), Some (''b'', 1)], [None, Some (''b'', 2)]]
     (Some [0, 1])
   = Inr ([3, 5, 7], [[Some (''a'', 1), Some (''b'', 0)], [Some (''a'', 2), Some (''b'', 1)]])
   \<and> list_all (\<lambda>p. p ! 0 \<noteq> None \<and> p ! 1 \<noteq> None)
        [[Some (''a'', 1 :: nat), Some (''b'', 0 :: nat)], [Some (''a'', 2), Some (''b'', 1)]]
   \<and> [[Some (''a'', 1 :: nat), Some (''b'', 0 :: nat)], [Some (''a'', 2), Some (''b'', 1)]]
       = slice [[Some (''a'', 0), None], [Some (''a'', 1), Some (''b'', 0)],
                [Some (''a'', 2), Some (''b'', 1)], [None, Some (''b'', 2)]] (max 0 1) (min 2 3 + 1)"
proof -
  let ?parts = "[[Some (''a'', 0 :: nat), None], [Some (''a'', 1), Some (''b'', 0 :: nat)],
      [Some (''a'', 2), Some (''b'', 1)], [None, Some (''b'', 2)]]"
  let ?parts2 = "[[Some (''a'', 1 :: nat), Some (''b'', 0 :: nat)], [Some (''a'', 2), Some (''b'', 1)]]"
  have len: "length [1, 3, 5, 7, 9 :: int] = length ?parts + 1" by simp
  have w: "\<forall>p\<in>set ?parts. 2 \<le> length p" by simp
  have c0: "\<forall>j<length ?parts. (?parts ! j ! 0 \<noteq> None) = (0 \<le> j \<and> j \<le> 2)"
    by (auto simp: less_Suc_eq numeral_eq_Suc)
  have c1: "\<forall>j<length ?parts. (?parts ! j ! 1 \<noteq> None) = (1 \<le> j \<and> j \<le> 3)"
    by (auto simp: less_Suc_eq numeral_eq_Suc)
  have r: "(0::nat) \<le> 2" "2 < length ?parts" "(1::nat) \<le> 3" "3 < length ?parts" by simp_all
  from require_inner_both_present[OF len w c0 r(1,2) c1 r(3,4) example_docstring_inner]
  have "(\<forall>p\<in>set ?parts2. p ! 0 \<noteq> None \<and> p ! 1 \<noteq> None)
      \<and> ?parts2 = slice ?parts (max 0 1) (min 2 3 + 1)" by blast
  then have a: "list_all (\<lambda>p. p ! 0 \<noteq> None \<and> p ! 1 \<noteq> None) ?parts2"
    and b: "?parts2 = slice ?parts (max 0 1) (min 2 3 + 1)"
    unfolding list_all_iff by blast+
  show ?thesis by (intro conjI len example_docstring_inner a b)
qed

section \<open>Rows that survive \<open>require\<close> in a left, right or inner join\<close>

lemma slice_rows_present:
  assumes c: "\<forall>j<length parts. (parts ! j ! i \<noteq> None) = (l \<le> j \<and> j \<le> h)"
    and b: "l \<le> L" "H \<le> h" "H < length parts"
    and p: "p \<in> set (slice parts L (H + 1))"
  shows "p ! i \<noteq> None"
proof -
  from p obtain j where j: "j < length (slice parts L (H + 1))" and e: "p = slice parts L (H + 1) ! j"
    by (auto simp: in_set_conv_nth)
  from j have j': "L + j < H + 1" using b(3) by (simp add: length_slice)
  then have "p = parts ! (L + j)" unfolding e using b(3) by (intro nth_slice) simp
  moreover have "L + j < length parts" "l \<le> L + j" "L + j \<le> h" using j' b by simp_all
  ultimately show ?thesis using c by blast
qed

lemma require_single_contiguous:
  assumes w: "\<forall>p\<in>set parts. i < length p"
    and c: "\<forall>j<length parts. (parts ! j ! i \<noteq> None) = (l \<le> j \<and> j \<le> h)"
    and lh: "l \<le> h" "h < length parts"
  shows "require divs parts (Some [i]) = Inr (slice divs l (h + 2), slice parts l (h + 1))"
  by (simp add: require_def require_step_contiguous[OF w c lh])

lemma align_rows_are_pairs:
  fixes lhs rhs :: "'a::linorder dataframe"
  assumes "align [lhs, rhs] = Inr (dfs2, divs, parts)"
  shows "\<forall>p\<in>set parts. length p = 2"
proof -
  let ?divs = "unique (merge_sorted (map divisions [lhs, rhs]))"
  let ?ds2 = "map (\<lambda>df. repartition df (bound ?divs (hd (divisions df)) (last (divisions df))))
                [lhs, rhs]"
  from assms have ne: "[] \<notin> set (map divisions [lhs, rhs])"
    by (auto simp: align_def Let_def split: if_splits)
  from align_unfold[OF ne] assms
  have p: "parts = align_loop ?ds2 (map (\<lambda>df. 0) [lhs, rhs]) (butlast ?divs)" by simp
  have l: "length (map (\<lambda>df. 0::nat) [lhs, rhs]) = length ?ds2" by simp
  show ?thesis
  proof
    fix q assume "q \<in> set parts"
    then have "q \<in> set (align_loop ?ds2 (map (\<lambda>df. 0) [lhs, rhs]) (butlast ?divs))"
      by (simp only: p)
    with l have "length q = length ?ds2" by (rule align_loop_row_length)
    then show "length q = 2" by simp
  qed
qed

text \<open>
  For the kinds \<open>left\<close>, \<open>right\<close> and \<open>inner\<close> every row that survives \<open>require\<close> gets
  a task: the final branch of the conditional is reached by the outer join only.
\<close>

lemma pruned_rows_have_tasks:
  fixes lhs rhs :: "'a::linorder dataframe"
  assumes ok: "\<forall>df\<in>set [lhs, rhs]. sorted (divisions df) \<and> divisions df \<noteq> []
             \<and> hd (divisions df) < last (divisions df)"
    and how: "how \<in> {''left'', ''right'', ''inner''}"
    and al: "align [lhs, rhs] = Inr (dfs2, divs, parts)"
    and rq: "required how = Some req"
    and ok2: "require divs parts (Some req) = Inr (divs2, parts2)"
    and p: "p \<in> set parts2"
  shows "join_task how lsuffix rsuffix left_empty right_empty (p ! 0) (p ! 1) \<noteq> None"
proof -
  have w: "\<forall>p\<in>set parts. length p = 2" using al by (rule align_rows_are_pairs)
  then have w0: "\<forall>p\<in>set parts. 0 < length p" and w1: "\<forall>p\<in>set parts. 1 < length p"
    and w2: "\<forall>p\<in>set parts. 2 \<le> length p" by auto
  from align_presence_contiguous[OF ok al, of 0] obtain l0 h0 where
    r0: "l0 \<le> h0" "h0 < length parts"
    and c0: "\<forall>j<length parts. (parts ! j ! 0 \<noteq> None) = (l0 \<le> j \<and> j \<le> h0)"
    by auto
  from align_presence_contiguous[OF ok al, of 1] obtain l1 h1 where
    r1: "l1 \<le> h1" "h1 < length parts"
    and c1: "\<forall>j<length parts. (parts ! j ! 1 \<noteq> None) = (l1 \<le> j \<and> j \<le> h1)"
    by auto
  from how consider "how = ''left''" | "how = ''right''" | "how = ''inner''" by auto
  then show ?thesis
  proof cases
    case 1
    with rq have "req = [0]" by (simp add: required_def)
    with ok2 require_single_contiguous[OF w0 c0 r0, of divs]
    have "parts2 = slice parts l0 (h0 + 1)" by simp
    with p have "p ! 0 \<noteq> None"
      using slice_rows_present[OF c0 order_refl order_refl r0(2)] by simp
    with 1 show ?thesis by (simp add: join_task_def)
  next
    case 2
    with rq have "req = [1]" by (simp add: required_def)
    with ok2 require_single_contiguous[OF w1 c1 r1, of divs]
    have "parts2 = slice parts l1 (h1 + 1)" by simp
    with p have "p ! 1 \<noteq> None"
      using slice_rows_present[OF c1 order_refl order_refl r1(2)] by simp
    with 2 show ?thesis by (simp add: join_task_def)
  next
    case 3
    with rq have req: "req = [0, 1]" by (simp add: required_def)
    note r = require_inner_contiguous[OF w2 c0 r0 c1 r1, of divs]
    from ok2 r have LH: "max l0 l1 \<le> min h0 h1" unfolding req by (auto split: if_splits)
    with ok2 r have p2: "parts2 = slice parts (max l0 l1) (min h0 h1 + 1)"
      unfolding req by simp
    have H: "min h0 h1 < length parts" using r0 by simp
    have "p ! 0 \<noteq> None"
      using slice_rows_present[OF c0 _ _ H, of "max l0 l1" p] p p2 by simp
    moreover have "p ! 1 \<noteq> None"
      using slice_rows_present[OF c1 _ _ H, of "max l0 l1" p] p p2 by simp
    ultimately show ?thesis by (simp add: join_task_def)
  qed
qed

end
